(* ===== verification/Prelude.thy ===== *)
theory Prelude
  imports Main "HOL-Library.State_Monad" "HOL-Library.Multiset"
begin

text \<open>
  Shared ground of the development: the values a Go function of the repository can hand back
  (a result, an error, a panic), the state monad in which the code's calls to the outside world
  are sequenced, a small Hoare calculus for it, and a few list lemmas.
\<close>

named_theorems triple_rules \<open>Hoare rules, one per construct of the monad\<close>

section \<open>Results, errors and panics\<close>

text \<open>
  An error answered by the Kubernetes API. The code only asks \<^verbatim>\<open>errors.IsNotFound\<close> and
  \<^verbatim>\<open>errors.IsAlreadyExists\<close> of such an error, so these two reasons are kept apart; the string is
  the error's own message.
\<close>

datatype api_error = NotFound string | AlreadyExists string | OtherApiError string

definition IsNotFound :: "api_error \<Rightarrow> bool" where
  "IsNotFound e = (case e of NotFound _ \<Rightarrow> True | _ \<Rightarrow> False)"

definition IsAlreadyExists :: "api_error \<Rightarrow> bool" where
  "IsAlreadyExists e = (case e of AlreadyExists _ \<Rightarrow> True | _ \<Rightarrow> False)"

text \<open>
  A Go \<^verbatim>\<open>error\<close> value of the repository: an API error handed on as it is, a text built by
  \<^verbatim>\<open>fmt.Errorf\<close> (format literal and arguments, unrendered), the same with a cause printed by
  \<open>%v\<close> or \<open>%w\<close>, the time-out of \<^verbatim>\<open>wait.ExponentialBackoff\<close>, and a gRPC status.
\<close>

datatype grpc_code = Unimplemented

datatype go_error =
    ApiErr api_error
  | Errorf string "string list"
  | Wrapf string "string list" go_error
  | WaitTimeout
  | Status grpc_code string

text \<open>A run that can panic (nil dereference, index out of range) ends in \<open>Panic\<close> with its cause.\<close>

datatype 'a run = Panic string | Done 'a

fun map_run :: "('a \<Rightarrow> 'b) \<Rightarrow> 'a run \<Rightarrow> 'b run" where
  "map_run f (Panic m) = Panic m"
| "map_run f (Done x) = Done (f x)"

text \<open>
  The choices of a \<^verbatim>\<open>for { select { ... } }\<close> loop over a watch channel and a timer, in the order
  the loop takes them: events received, and at the end either the closed channel or the timer.
  The datatype is inductive, so there are finitely many events before the timer fires.
\<close>

datatype 'ev select_run = Recv 'ev "'ev select_run" | ChanClosed | TimerFired

fun received :: "'ev select_run \<Rightarrow> 'ev list" where
  "received (Recv e r) = e # received r"
| "received ChanClosed = []"
| "received TimerFired = []"

fun select_end :: "'ev select_run \<Rightarrow> 'ev select_run" where
  "select_end (Recv e r) = select_end r"
| "select_end ChanClosed = ChanClosed"
| "select_end TimerFired = TimerFired"

lemma select_end_cases: "select_end r = ChanClosed \<or> select_end r = TimerFired"
  by (induction r) auto

section \<open>A Hoare calculus for the state monad\<close>

text \<open>
  \<open>triple P m Q\<close>: started in a state that satisfies \<open>P\<close>, the computation \<open>m\<close> ends with a result
  and a state that satisfy \<open>Q\<close>.
\<close>

definition triple :: "('s \<Rightarrow> bool) \<Rightarrow> ('s, 'a) state \<Rightarrow> ('a \<Rightarrow> 's \<Rightarrow> bool) \<Rightarrow> bool" where
  "triple P m Q \<longleftrightarrow> (\<forall>s. P s \<longrightarrow> (case run_state m s of (a, s') \<Rightarrow> Q a s'))"

lemma tripleI: "(\<And>s a s'. P s \<Longrightarrow> run_state m s = (a, s') \<Longrightarrow> Q a s') \<Longrightarrow> triple P m Q"
  by (auto simp: triple_def)

lemma tripleD: "triple P m Q \<Longrightarrow> P s \<Longrightarrow> run_state m s = (a, s') \<Longrightarrow> Q a s'"
  by (auto simp: triple_def)

lemma triple_return [triple_rules]: "(\<And>s. P s \<Longrightarrow> Q x s) \<Longrightarrow> triple P (State_Monad.return x) Q"
  by (auto simp: triple_def)

lemma triple_bind [triple_rules]:
  "triple P m R \<Longrightarrow> (\<And>x. triple (R x) (f x) Q) \<Longrightarrow> triple P (State_Monad.bind m f) Q"
  by (fastforce simp: triple_def split: prod.splits)

lemma triple_conseq:
  "triple P' m Q' \<Longrightarrow> (\<And>s. P s \<Longrightarrow> P' s) \<Longrightarrow> (\<And>a s. Q' a s \<Longrightarrow> Q a s) \<Longrightarrow> triple P m Q"
  by (fastforce simp: triple_def split: prod.splits)

lemma triple_if [triple_rules]:
  "(b \<Longrightarrow> triple P m Q) \<Longrightarrow> (\<not> b \<Longrightarrow> triple P n Q) \<Longrightarrow> triple P (if b then m else n) Q"
  by simp

lemma triple_sum [triple_rules]:
  "(\<And>e. r = Inl e \<Longrightarrow> triple P (f e) Q) \<Longrightarrow> (\<And>x. r = Inr x \<Longrightarrow> triple P (g x) Q) \<Longrightarrow>
   triple P (case r of Inl e \<Rightarrow> f e | Inr x \<Rightarrow> g x) Q"
  by (cases r) auto

lemma triple_option [triple_rules]:
  "(r = None \<Longrightarrow> triple P m Q) \<Longrightarrow> (\<And>x. r = Some x \<Longrightarrow> triple P (g x) Q) \<Longrightarrow>
   triple P (case r of None \<Rightarrow> m | Some x \<Rightarrow> g x) Q"
  by (cases r) auto

lemma triple_prod [triple_rules]:
  "(\<And>x y. r = (x, y) \<Longrightarrow> triple P (f x y) Q) \<Longrightarrow> triple P (case r of (x, y) \<Rightarrow> f x y) Q"
  by (cases r) auto

text \<open>The shapes of the code: a call, then a branch on its error.\<close>

lemma triple_bind_sum:
  "triple P m R \<Longrightarrow> (\<And>e. triple (R (Inl e)) (f e) Q) \<Longrightarrow> (\<And>v. triple (R (Inr v)) (g v) Q) \<Longrightarrow>
   triple P (State_Monad.bind m (\<lambda>r. case r of Inl e \<Rightarrow> f e | Inr v \<Rightarrow> g v)) Q"
  by (erule triple_bind) (auto split: sum.split)

lemma triple_bind_option:
  "triple P m R \<Longrightarrow> triple (R None) f Q \<Longrightarrow> (\<And>e. triple (R (Some e)) (g e) Q) \<Longrightarrow>
   triple P (State_Monad.bind m (\<lambda>r. case r of None \<Rightarrow> f | Some e \<Rightarrow> g e)) Q"
  by (erule triple_bind) (auto split: option.split)

lemma triple_post_return:
  "triple P m (\<lambda>r. Q (h r)) \<Longrightarrow> triple P (State_Monad.bind m (\<lambda>r. State_Monad.return (h r))) Q"
  by (erule triple_bind) (auto intro: triple_return)

lemma triple_pre_False: "(\<And>s. \<not> P s) \<Longrightarrow> triple P m Q"
  by (simp add: triple_def)

section \<open>Lists\<close>

text \<open>The first element that satisfies a predicate, with everything before it failing it.\<close>

lemma find_Some_first:
  "find P xs = Some x \<longleftrightarrow> (\<exists>ys zs. xs = ys @ x # zs \<and> P x \<and> (\<forall>y\<in>set ys. \<not> P y))"
proof
  assume "find P xs = Some x"
  then show "\<exists>ys zs. xs = ys @ x # zs \<and> P x \<and> (\<forall>y\<in>set ys. \<not> P y)"
  proof (induction xs)
    case Nil
    then show ?case by simp
  next
    case (Cons a xs)
    show ?case
    proof (cases "P a")
      case True
      with Cons.prems have "a # xs = [] @ x # xs \<and> P x \<and> (\<forall>y\<in>set []. \<not> P y)" by simp
      then show ?thesis by blast
    next
      case False
      with Cons obtain ys zs where "xs = ys @ x # zs" "P x" "\<forall>y\<in>set ys. \<not> P y" by auto
      with False have "a # xs = (a # ys) @ x # zs \<and> P x \<and> (\<forall>y\<in>set (a # ys). \<not> P y)" by simp
      then show ?thesis by blast
    qed
  qed
next
  assume "\<exists>ys zs. xs = ys @ x # zs \<and> P x \<and> (\<forall>y\<in>set ys. \<not> P y)"
  then obtain ys zs where "xs = ys @ x # zs" and P: "P x" and none: "\<forall>y\<in>set ys. \<not> P y" by blast
  moreover from none P have "find P (ys @ x # zs) = Some x" by (induction ys) auto
  ultimately show "find P xs = Some x" by simp
qed

lemma find_None: "find P xs = None \<longleftrightarrow> (\<forall>x\<in>set xs. \<not> P x)"
  by (induction xs) auto

end
