(* ===== verification/GoLib.thy ===== *)
theory GoLib
  imports Prelude "HOL-Library.Char_ord" "HOL-Library.List_Lexorder"
begin

text \<open>
  The parts of the Go standard library the repository computes with: \<^verbatim>\<open>strings.Compare\<close>,
  \<^verbatim>\<open>strings.Split\<close> and \<^verbatim>\<open>strings.Join\<close>, \<^verbatim>\<open>strings.ToLower\<close>, \<^verbatim>\<open>strings.ReplaceAll\<close>,
  \<^verbatim>\<open>slices.SortFunc\<close> and \<^verbatim>\<open>path.Join\<close>. A Go string is a sequence of bytes, a HOL
  \<^typ>\<open>string\<close> a list of 8-bit characters; both are compared bytewise and lexicographically.
\<close>

section \<open>strings\<close>

definition strings_Compare :: "string \<Rightarrow> string \<Rightarrow> int" where
  "strings_Compare a b = (if a = b then 0 else if a < b then -1 else 1)"

lemma strings_Compare_zero [simp]: "strings_Compare a b = 0 \<longleftrightarrow> a = b"
  by (simp add: strings_Compare_def)

lemma strings_Compare_neg [simp]: "strings_Compare a b < 0 \<longleftrightarrow> a < b"
  by (auto simp: strings_Compare_def)

lemma strings_Compare_pos [simp]: "0 < strings_Compare a b \<longleftrightarrow> b < a"
  by (auto simp: strings_Compare_def)

text \<open>\<^verbatim>\<open>strings.Split\<close> with a one-character separator; splitting the empty string gives one piece.\<close>

fun strings_Split :: "string \<Rightarrow> char \<Rightarrow> string list" where
  "strings_Split [] c = [[]]"
| "strings_Split (x # xs) c =
     (if x = c then [] # strings_Split xs c
      else (case strings_Split xs c of [] \<Rightarrow> [[x]] | y # ys \<Rightarrow> (x # y) # ys))"

fun strings_Join :: "string list \<Rightarrow> string \<Rightarrow> string" where
  "strings_Join [] sep = []"
| "strings_Join [x] sep = x"
| "strings_Join (x # y # ys) sep = x @ sep @ strings_Join (y # ys) sep"

lemma strings_Split_not_Nil [simp]: "strings_Split s c \<noteq> []"
  by (cases s) (auto split: list.splits)

lemma strings_Split_pieces: "p \<in> set (strings_Split s c) \<Longrightarrow> c \<notin> set p"
  by (induction s arbitrary: p) (auto split: if_splits list.splits)

lemma strings_Split_append:
  "c \<notin> set x \<Longrightarrow> strings_Split (x @ c # s) c = x # strings_Split s c"
  by (induction x) auto

lemma strings_Split_single: "c \<notin> set x \<Longrightarrow> strings_Split x c = [x]"
  by (induction x) auto

lemma strings_Split_Join:
  "xs \<noteq> [] \<Longrightarrow> \<forall>x\<in>set xs. c \<notin> set x \<Longrightarrow> strings_Split (strings_Join xs [c]) c = xs"
  by (induction xs "[c]" rule: strings_Join.induct)
    (auto simp: strings_Split_append strings_Split_single)

lemma strings_Join_Cons:
  "xs \<noteq> [] \<Longrightarrow> strings_Join (x # xs) sep = x @ sep @ strings_Join xs sep"
  by (cases xs) auto

lemma strings_Join_Split: "strings_Join (strings_Split s c) [c] = s"
proof (induction s)
  case Nil
  then show ?case by simp
next
  case (Cons x s)
  obtain y ys where ys: "strings_Split s c = y # ys" by (cases "strings_Split s c") auto
  show ?case
  proof (cases "x = c")
    case True
    with Cons show ?thesis by (simp add: strings_Join_Cons)
  next
    case False
    with Cons ys show ?thesis by (cases ys) auto
  qed
qed

text \<open>\<^verbatim>\<open>strings.ToLower\<close> on ASCII text.\<close>

definition to_lower :: "char \<Rightarrow> char" where
  "to_lower c = (let n = of_char c :: nat in if 65 \<le> n \<and> n \<le> 90 then char_of (n + 32) else c)"

definition strings_ToLower :: "string \<Rightarrow> string" where
  "strings_ToLower s = map to_lower s"

text \<open>\<^verbatim>\<open>strings.ReplaceAll\<close> of one character by one character.\<close>

definition strings_ReplaceAll :: "string \<Rightarrow> char \<Rightarrow> char \<Rightarrow> string" where
  "strings_ReplaceAll s old new = map (\<lambda>c. if c = old then new else c) s"

lemma strings_ReplaceAll_id: "old \<notin> set s \<Longrightarrow> strings_ReplaceAll s old new = s"
  by (induction s) (auto simp: strings_ReplaceAll_def)

section \<open>slices.SortFunc\<close>

text \<open>
  \<^verbatim>\<open>slices.SortFunc\<close> promises a permutation of its argument in which no element compares greater
  than a later one. It is computed here by insertion. The contract asks for a comparison function,
  which is the locale \<open>compare_func\<close>; in it the sorted permutation is unique, so the choice of the
  algorithm cannot be observed.
\<close>

fun insert_func :: "('a \<Rightarrow> 'a \<Rightarrow> int) \<Rightarrow> 'a \<Rightarrow> 'a list \<Rightarrow> 'a list" where
  "insert_func cmp x [] = [x]"
| "insert_func cmp x (y # ys) = (if cmp x y \<le> 0 then x # y # ys else y # insert_func cmp x ys)"

fun slices_SortFunc :: "('a \<Rightarrow> 'a \<Rightarrow> int) \<Rightarrow> 'a list \<Rightarrow> 'a list" where
  "slices_SortFunc cmp [] = []"
| "slices_SortFunc cmp (x # xs) = insert_func cmp x (slices_SortFunc cmp xs)"

lemma mset_insert_func [simp]: "mset (insert_func cmp x xs) = add_mset x (mset xs)"
  by (induction xs) auto

lemma mset_SortFunc [simp]: "mset (slices_SortFunc cmp xs) = mset xs"
  by (induction xs) auto

lemma set_SortFunc [simp]: "set (slices_SortFunc cmp xs) = set xs"
  using mset_SortFunc [of cmp xs] by (metis set_mset_mset)

lemma length_SortFunc [simp]: "length (slices_SortFunc cmp xs) = length xs"
  using mset_SortFunc [of cmp xs] by (metis size_mset)

lemma SortFunc_Nil_iff [simp]: "slices_SortFunc cmp xs = [] \<longleftrightarrow> xs = []"
  using length_SortFunc [of cmp xs] by (metis length_0_conv)

locale compare_func =
  fixes cmp :: "'a \<Rightarrow> 'a \<Rightarrow> int"
  assumes cmp_zero: "cmp a b = 0 \<longleftrightarrow> a = b"
    and cmp_flip: "cmp a b < 0 \<longleftrightarrow> 0 < cmp b a"
    and cmp_trans: "cmp a b < 0 \<Longrightarrow> cmp b c < 0 \<Longrightarrow> cmp a c < 0"
begin

lemma cmp_le_trans: "cmp a b \<le> 0 \<Longrightarrow> cmp b c \<le> 0 \<Longrightarrow> cmp a c \<le> 0"
  using cmp_zero cmp_trans by (metis le_less)

lemma cmp_le_total: "\<not> cmp a b \<le> 0 \<Longrightarrow> cmp b a \<le> 0"
  using cmp_flip [of b a] by auto

lemma cmp_le_antisym: "cmp a b \<le> 0 \<Longrightarrow> cmp b a \<le> 0 \<Longrightarrow> a = b"
  using cmp_flip [of a b] cmp_zero [of a b] by auto

lemma cmp_asym: "cmp a b < 0 \<Longrightarrow> \<not> cmp b a < 0"
  using cmp_flip [of a b] by auto

lemma insert_sorted:
  "sorted_wrt (\<lambda>a b. cmp a b \<le> 0) xs \<Longrightarrow> sorted_wrt (\<lambda>a b. cmp a b \<le> 0) (insert_func cmp x xs)"
proof (induction xs)
  case Nil
  then show ?case by simp
next
  case (Cons y ys)
  have "set (insert_func cmp x ys) = insert x (set ys)"
    using mset_insert_func [of cmp x ys] by (metis set_mset_add_mset_insert set_mset_mset)
  with Cons show ?case by (auto intro: cmp_le_trans dest: cmp_le_total)
qed

lemma SortFunc_sorted: "sorted_wrt (\<lambda>a b. cmp a b \<le> 0) (slices_SortFunc cmp xs)"
  by (induction xs) (auto intro: insert_sorted)

lemma sorted_permutation_unique:
  assumes "mset xs = mset ys"
    and "sorted_wrt (\<lambda>a b. cmp a b \<le> 0) xs" and "sorted_wrt (\<lambda>a b. cmp a b \<le> 0) ys"
  shows "xs = ys"
  using assms
proof (induction xs arbitrary: ys)
  case Nil
  then show ?case by simp
next
  case (Cons x xs)
  then obtain y ys' where ys: "ys = y # ys'" by (cases ys) auto
  from Cons.prems(1) ys have mem: "x \<in> set (y # ys')" "y \<in> set (x # xs)"
    by (metis list.set_intros(1) mset_eq_setD)+
  with Cons.prems(2,3) ys have "x = y" by (auto intro: cmp_le_antisym)
  moreover from this have "xs = ys'" using Cons ys by auto
  ultimately show ?case using ys by simp
qed

lemma SortFunc_unique:
  "mset ys = mset xs \<Longrightarrow> sorted_wrt (\<lambda>a b. cmp a b \<le> 0) ys \<Longrightarrow> ys = slices_SortFunc cmp xs"
  by (rule sorted_permutation_unique) (simp_all add: SortFunc_sorted)

lemma SortFunc_sorted_id: "sorted_wrt (\<lambda>a b. cmp a b \<le> 0) xs \<Longrightarrow> slices_SortFunc cmp xs = xs"
  using SortFunc_unique by metis

end

section \<open>path\<close>

text \<open>
  \<^verbatim>\<open>path.Clean\<close> works through the elements between slashes with a stack (top first): empty elements
  and \<open>.\<close> are skipped, \<open>..\<close> removes the element before it, stays where there is none to remove,
  and is dropped at the root.
\<close>

definition clean_elem :: "bool \<Rightarrow> string list \<Rightarrow> string \<Rightarrow> string list" where
  "clean_elem rooted st e =
     (if e = '''' \<or> e = ''.'' then st
      else if e = ''..'' then
        (case st of [] \<Rightarrow> (if rooted then [] else [''..''])
         | parent # rest \<Rightarrow> (if parent = ''..'' then ''..'' # st else rest))
      else e # st)"

definition path_Clean :: "string \<Rightarrow> string" where
  "path_Clean p =
     (if p = '''' then ''.''
      else let rooted = (hd p = CHR ''/'');
               st = rev (foldl (clean_elem rooted) [] (strings_Split p CHR ''/''))
           in if rooted then ''/'' @ strings_Join st ''/''
              else if st = [] then ''.'' else strings_Join st ''/'')"

fun join_buf :: "string \<Rightarrow> string list \<Rightarrow> string" where
  "join_buf buf [] = buf"
| "join_buf buf (e # es) =
     join_buf (if buf \<noteq> '''' then buf @ ''/'' @ e else e) es"

definition path_Join :: "string list \<Rightarrow> string" where
  "path_Join es = (if concat es = '''' then '''' else path_Clean (join_buf '''' es))"

text \<open>A rooted path stays rooted, and its elements are neither empty nor \<open>.\<close> nor \<open>..\<close>.\<close>

definition proper_elem :: "string \<Rightarrow> bool" where
  "proper_elem e \<longleftrightarrow> e \<noteq> '''' \<and> e \<noteq> ''.'' \<and> e \<noteq> ''..'' \<and> CHR ''/'' \<notin> set e"

lemma foldl_clean_elem_proper:
  "\<forall>e\<in>set es. CHR ''/'' \<notin> set e \<Longrightarrow> \<forall>e\<in>set st. proper_elem e \<Longrightarrow>
   \<forall>e\<in>set (foldl (clean_elem True) st es). proper_elem e"
proof (induction es arbitrary: st)
  case Nil
  then show ?case by simp
next
  case (Cons e es)
  have "\<forall>e\<in>set (clean_elem True st e). proper_elem e"
    using Cons.prems by (auto simp: clean_elem_def proper_elem_def split: list.splits)
  with Cons show ?case by simp
qed

lemma path_Clean_rooted:
  assumes "p \<noteq> ''''" and "hd p = CHR ''/''"
  shows "\<exists>es. path_Clean p = ''/'' @ strings_Join es ''/'' \<and> (\<forall>e\<in>set es. proper_elem e)"
proof -
  have "\<forall>e\<in>set (foldl (clean_elem True) [] (strings_Split p CHR ''/'')). proper_elem e"
    by (rule foldl_clean_elem_proper) (auto dest: strings_Split_pieces)
  with assms show ?thesis by (auto simp: path_Clean_def Let_def)
qed

lemma join_buf_rooted: "buf \<noteq> '''' \<Longrightarrow> join_buf buf es \<noteq> '''' \<and> hd (join_buf buf es) = hd buf"
  by (induction es arbitrary: buf) auto

lemma path_Join_rooted:
  "\<exists>es'. path_Join (''/'' # es) = ''/'' @ strings_Join es' ''/'' \<and> (\<forall>e\<in>set es'. proper_elem e)"
  using join_buf_rooted [of "''/''" es] path_Clean_rooted [of "join_buf ''/'' es"]
  by (simp add: path_Join_def)

end
