(* ===== verification/Topology.thy ===== *)
theory Topology
  imports GoLib
begin

text \<open>
  Topology segments and terms of \<^verbatim>\<open>pkg/provisioner/topology.go\<close>: the flattening of a storage
  class's allowed topologies into sorted terms, the topology of a node under a driver's keys, and
  the comparison and inclusion of terms. The declarative reading of allowed topologies
  (\<open>node_allowed\<close>) is at the end, with the proof that the code decides it.
\<close>

section \<open>Objects read\<close>

record label_expression =
  exp_key :: string
  exp_values :: "string list"

record selector_term =
  MatchLabelExpressions :: "label_expression list"

record csi_node_driver =
  drv_name :: string
  drv_NodeID :: string
  drv_TopologyKeys :: "string list"

record csi_node =
  csin_name :: string
  csin_Drivers :: "csi_node_driver list"

record node =
  node_name :: string
  node_Labels :: "string \<rightharpoonup> string"
  node_Unschedulable :: bool

record topologySegment =
  Key :: string
  Val :: string

type_synonym topologyTerm = "topologySegment list"

abbreviation seg :: "string \<Rightarrow> string \<Rightarrow> topologySegment" where
  "seg k v \<equiv> \<lparr>Key = k, Val = v\<rparr>"

section \<open>Order on segments\<close>

definition segment_cmp :: "topologySegment \<Rightarrow> topologySegment \<Rightarrow> int" where
  "segment_cmp a b =
     (let r = strings_Compare (Key a) (Key b)
      in if r \<noteq> 0 then r else strings_Compare (Val a) (Val b))"

definition term_sort :: "topologyTerm \<Rightarrow> topologyTerm" where
  "term_sort t = slices_SortFunc segment_cmp t"

text \<open>
  \<^verbatim>\<open>compare\<close> and \<^verbatim>\<open>subset\<close> index a second slice inside their loops. The loops are written with
  the index, and an index out of range is the panic of Go; that it never happens is proved below.
\<close>

definition index_panic :: string where
  "index_panic = ''index out of range''"

definition at_index :: "'a list \<Rightarrow> nat \<Rightarrow> 'a run" where
  "at_index xs i = (if i < length xs then Done (xs ! i) else Panic index_panic)"

fun compare_loop :: "topologyTerm \<Rightarrow> nat \<Rightarrow> topologyTerm \<Rightarrow> int run" where
  "compare_loop [] i other = Done 0"
| "compare_loop (k1 # rest) i other =
     (case at_index other i of Panic m \<Rightarrow> Panic m
      | Done k2 \<Rightarrow>
          (let r = strings_Compare (Key k1) (Key k2) in
           if r \<noteq> 0 then Done r
           else let r = strings_Compare (Val k1) (Val k2) in
             if r \<noteq> 0 then Done r
             else compare_loop rest (Suc i) other))"

definition term_compare :: "topologyTerm \<Rightarrow> topologyTerm \<Rightarrow> int run" where
  "term_compare t other =
     (if length t \<noteq> length other then Done (int (length t) - int (length other))
      else compare_loop t 0 other)"

fun subset_loop :: "topologyTerm \<Rightarrow> nat \<Rightarrow> topologyTerm \<Rightarrow> bool run" where
  "subset_loop t j [] = Done False"
| "subset_loop t j (k2 # rest) =
     (case at_index t j of Panic m \<Rightarrow> Panic m
      | Done k1 \<Rightarrow>
          (if Key k1 \<noteq> Key k2 then subset_loop t j rest
           else if Val k1 \<noteq> Val k2 then Done False
           else if Suc j = length t then Done True
           else subset_loop t (Suc j) rest))"

definition term_subset :: "topologyTerm \<Rightarrow> topologyTerm \<Rightarrow> bool run" where
  "term_subset t other = (if length t = 0 then Done True else subset_loop t 0 other)"

section \<open>Flattening allowed topologies\<close>

text \<open>The two inner loops: the values of one expression distributed over the terms so far.\<close>

fun distribute :: "topologyTerm list \<Rightarrow> string \<Rightarrow> string list \<Rightarrow> topologyTerm list" where
  "distribute oldTerms key [] = []"
| "distribute oldTerms key (v # vs) =
     (if length oldTerms = 0 then [[seg key v]]
      else map (\<lambda>oldTerm. oldTerm @ [seg key v]) oldTerms) @ distribute oldTerms key vs"

fun flatten_term :: "topologyTerm list \<Rightarrow> label_expression list \<Rightarrow> topologyTerm list" where
  "flatten_term oldTerms [] = oldTerms"
| "flatten_term oldTerms (e # es) =
     flatten_term (distribute oldTerms (exp_key e) (exp_values e)) es"

fun flatten_terms :: "selector_term list \<Rightarrow> topologyTerm list" where
  "flatten_terms [] = []"
| "flatten_terms (t # ts) = flatten_term [] (MatchLabelExpressions t) @ flatten_terms ts"

definition flatten :: "selector_term list \<Rightarrow> topologyTerm list" where
  "flatten allowedTopologies = map term_sort (flatten_terms allowedTopologies)"

section \<open>The topology of a node\<close>

fun find_driver_keys :: "csi_node_driver list \<Rightarrow> string \<Rightarrow> string list" where
  "find_driver_keys [] driverName = []"
| "find_driver_keys (d # ds) driverName =
     (if drv_name d = driverName then drv_TopologyKeys d else find_driver_keys ds driverName)"

definition getTopologyKeys :: "csi_node \<Rightarrow> string \<Rightarrow> string list" where
  "getTopologyKeys csiNode driverName = find_driver_keys (csin_Drivers csiNode) driverName"

fun node_segments :: "node \<Rightarrow> string list \<Rightarrow> topologyTerm option" where
  "node_segments n [] = Some []"
| "node_segments n (key # keys) =
     (case node_Labels n key of None \<Rightarrow> None
      | Some v \<Rightarrow> map_option (\<lambda>t. seg key v # t) (node_segments n keys))"

text \<open>The pair of the code: the term and the flag that says a key is missing.\<close>

definition getTopologyFromNode :: "node \<Rightarrow> string list \<Rightarrow> topologyTerm \<times> bool" where
  "getTopologyFromNode n topologyKeys =
     (case node_segments n topologyKeys of None \<Rightarrow> ([], True)
      | Some t \<Rightarrow> (term_sort t, False))"

section \<open>Selector and CSI topology\<close>

datatype label_operator = LabelSelectorOpIn | LabelSelectorOpNotIn | LabelSelectorOpExists | LabelSelectorOpDoesNotExist

record selector_requirement =
  req_Key :: string
  req_Operator :: label_operator
  req_Values :: "string list"

text \<open>
  \<^verbatim>\<open>metav1.LabelSelectorAsSelector\<close> is not in the repository: it is the parameter \<open>as_selector\<close>.
\<close>

definition buildTopologyKeySelector ::
  "(selector_requirement list \<Rightarrow> go_error + 'sel) \<Rightarrow> string list \<Rightarrow> go_error + 'sel" where
  "buildTopologyKeySelector as_selector topologyKeys =
     (let expr = map (\<lambda>key. \<lparr>req_Key = key, req_Operator = LabelSelectorOpExists, req_Values = []\<rparr>) topologyKeys
      in case as_selector expr of
           Inl err \<Rightarrow> Inl (Wrapf ''error parsing topology keys selector: %v'' [] err)
         | Inr selector \<Rightarrow> Inr selector)"

definition term_segments :: "topologyTerm \<Rightarrow> (string \<rightharpoonup> string)" where
  "term_segments t = foldl (\<lambda>segs k. segs(Key k \<mapsto> Val k)) Map.empty t"

definition toCSITopology :: "topologyTerm list \<Rightarrow> (string \<rightharpoonup> string) list" where
  "toCSITopology terms = map term_segments terms"

section \<open>The comparison functions\<close>

text \<open>The contract of \<^verbatim>\<open>slices.SortFunc\<close> holds for the comparison of segments.\<close>

interpretation segments: compare_func segment_cmp
proof (unfold_locales, goal_cases)
  case (1 a b)
  show ?case by (cases a; cases b) (auto simp: segment_cmp_def Let_def)
next
  case (2 a b)
  show ?case by (auto simp: segment_cmp_def Let_def)
next
  case (3 a b c)
  then show ?case
    by (auto simp: segment_cmp_def Let_def split: if_splits dest: order.strict_trans)
qed

lemma segment_cmp_le_Key: "segment_cmp a b \<le> 0 \<Longrightarrow> Key a \<le> Key b"
  by (auto simp: segment_cmp_def Let_def strings_Compare_def split: if_splits)

lemma set_term_sort [simp]: "set (term_sort t) = set t"
  by (simp add: term_sort_def)

lemma mset_term_sort [simp]: "mset (term_sort t) = mset t"
  by (simp add: term_sort_def)

lemma sorted_keys_term_sort: "sorted_wrt (\<lambda>a b. Key a \<le> Key b) (term_sort t)"
  unfolding term_sort_def
  by (rule sorted_wrt_mono_rel [OF _ segments.SortFunc_sorted]) (rule segment_cmp_le_Key)

lemma term_sort_idem: "term_sort (term_sort t) = term_sort t"
  unfolding term_sort_def by (rule segments.SortFunc_sorted_id) (rule segments.SortFunc_sorted)

text \<open>\<^verbatim>\<open>compare\<close> without indices: the first differing segment decides.\<close>

fun lex_cmp :: "topologyTerm \<Rightarrow> topologyTerm \<Rightarrow> int" where
  "lex_cmp (a # as) (b # bs) = (if segment_cmp a b \<noteq> 0 then segment_cmp a b else lex_cmp as bs)"
| "lex_cmp _ _ = 0"

lemma at_index_Done: "i < length xs \<Longrightarrow> at_index xs i = Done (xs ! i)"
  by (simp add: at_index_def)

lemma compare_loop_lex:
  "length other = i + length t \<Longrightarrow> compare_loop t i other = Done (lex_cmp t (drop i other))"
proof (induction t arbitrary: i)
  case Nil
  then show ?case by simp
next
  case (Cons a t)
  then have i: "i < length other" by simp
  then have "drop i other = other ! i # drop (Suc i) other" by (simp add: Cons_nth_drop_Suc)
  with Cons i show ?case by (simp add: at_index_Done segment_cmp_def Let_def)
qed

definition cmp_terms :: "topologyTerm \<Rightarrow> topologyTerm \<Rightarrow> int" where
  "cmp_terms t u = (if length t \<noteq> length u then int (length t) - int (length u) else lex_cmp t u)"

lemma term_compare_cmp: "term_compare t u = Done (cmp_terms t u)"
  by (simp add: term_compare_def cmp_terms_def compare_loop_lex)

lemma lex_cmp_zero: "length t = length u \<Longrightarrow> lex_cmp t u = 0 \<longleftrightarrow> t = u"
  by (induction t u rule: list_induct2) (auto simp: segments.cmp_zero)

lemma lex_cmp_flip: "length t = length u \<Longrightarrow> lex_cmp t u < 0 \<longleftrightarrow> 0 < lex_cmp u t"
  by (induction t u rule: list_induct2) (auto simp: segments.cmp_zero segments.cmp_flip)

lemma lex_cmp_trans:
  "length t = length u \<Longrightarrow> length u = length w \<Longrightarrow> lex_cmp t u < 0 \<Longrightarrow> lex_cmp u w < 0 \<Longrightarrow> lex_cmp t w < 0"
proof (induction t u w rule: list_induct3)
  case Nil
  then show ?case by simp
next
  case (Cons a t b u c w)
  then show ?case
    by (auto simp: segments.cmp_zero split: if_splits dest: segments.cmp_trans segments.cmp_asym)
qed

text \<open>So \<^verbatim>\<open>compare\<close> is itself a comparison function in the sense of the contract.\<close>

interpretation terms: compare_func cmp_terms
proof (unfold_locales, goal_cases)
  case (1 t u)
  show ?case by (auto simp: cmp_terms_def lex_cmp_zero)
next
  case (2 t u)
  show ?case by (auto simp: cmp_terms_def lex_cmp_flip)
next
  case (3 t u w)
  then show ?case using lex_cmp_trans [of t u w] by (auto simp: cmp_terms_def split: if_splits)
qed

section \<open>Inclusion of terms\<close>

text \<open>The scan of \<^verbatim>\<open>subset\<close> without indices.\<close>

fun scan :: "topologyTerm \<Rightarrow> topologyTerm \<Rightarrow> bool" where
  "scan [] other = True"
| "scan (k1 # t) [] = False"
| "scan (k1 # t) (k2 # other) =
     (if Key k1 \<noteq> Key k2 then scan (k1 # t) other
      else if Val k1 \<noteq> Val k2 then False else scan t other)"

lemma subset_loop_scan: "j < length t \<Longrightarrow> subset_loop t j other = Done (scan (drop j t) other)"
proof (induction other arbitrary: j)
  case Nil
  then show ?case by (simp add: Cons_nth_drop_Suc [symmetric])
next
  case (Cons k2 other)
  then have d: "drop j t = t ! j # drop (Suc j) t" by (simp add: Cons_nth_drop_Suc)
  show ?case
  proof (cases "Suc j = length t")
    case True
    with Cons d show ?thesis by (simp add: at_index_Done)
  next
    case False
    with Cons.prems have "Suc j < length t" by simp
    with Cons d show ?thesis by (simp add: at_index_Done)
  qed
qed

lemma term_subset_scan: "term_subset t other = Done (scan t other)"
  by (cases t) (auto simp: term_subset_def subset_loop_scan)

lemma scan_sound: "scan t other \<Longrightarrow> set t \<subseteq> set other"
  by (induction t other rule: scan.induct) (auto split: if_splits intro: topologySegment.equality)

definition functional_term :: "topologyTerm \<Rightarrow> bool" where
  "functional_term t \<longleftrightarrow> (\<forall>a\<in>set t. \<forall>b\<in>set t. Key a = Key b \<longrightarrow> Val a = Val b)"

lemma scan_complete:
  assumes "set t \<subseteq> set other"
    and "sorted_wrt (\<lambda>a b. Key a < Key b) t"
    and "sorted_wrt (\<lambda>a b. Key a \<le> Key b) other"
    and "functional_term other"
  shows "scan t other"
  using assms
proof (induction t other rule: scan.induct)
  case (3 k1 t k2 other)
  have fo: "functional_term other" using "3.prems"(4) unfolding functional_term_def by (metis list.set_intros(2))
  show ?case
  proof (cases "Key k1 = Key k2")
    case True
    have "k1 \<in> set (k2 # other)" using "3.prems"(1) by auto
    then have v: "Val k1 = Val k2"
      using "3.prems"(4) True unfolding functional_term_def by (metis list.set_intros(1))
    with True have "k1 = k2" by (intro topologySegment.equality) auto
    moreover have "k1 \<notin> set t" using "3.prems"(2) by auto
    ultimately have "set t \<subseteq> set other" using "3.prems"(1) by auto
    with "3.IH"(2) "3.prems" True v fo show ?thesis by simp
  next
    case False
    have "k1 \<in> set other" using "3.prems"(1) False by auto
    with "3.prems"(3) False have "Key k2 < Key k1" by (auto simp: less_le)
    with "3.prems"(2) have "k2 \<notin> set (k1 # t)" by auto
    with "3.prems"(1) have "set (k1 # t) \<subseteq> set other" by auto
    with "3.IH"(1) "3.prems" False fo show ?thesis by simp
  qed
qed auto

lemma sorted_distinct_keys:
  "sorted_wrt (\<lambda>a b. Key a \<le> Key b) t \<Longrightarrow> distinct (map Key t) \<Longrightarrow> sorted_wrt (\<lambda>a b. Key a < Key b) t"
  by (induction t) (auto simp: less_le image_iff)

lemma distinct_keys_term_sort: "distinct (map Key (term_sort t)) \<longleftrightarrow> distinct (map Key t)"
  using mset_term_sort [of t] by (metis mset_eq_imp_distinct_iff mset_map)

text \<open>On sorted terms the code's \<^verbatim>\<open>subset\<close> is set inclusion.\<close>

lemma term_subset_iff:
  assumes "distinct (map Key t)" and "functional_term other"
  shows "term_subset (term_sort t) (term_sort other) = Done (set t \<subseteq> set other)"
proof -
  have "sorted_wrt (\<lambda>a b. Key a < Key b) (term_sort t)"
    using assms(1) by (intro sorted_distinct_keys sorted_keys_term_sort) (simp add: distinct_keys_term_sort)
  moreover have "functional_term (term_sort other)"
    using assms(2) unfolding functional_term_def set_term_sort .
  ultimately have "scan (term_sort t) (term_sort other) \<longleftrightarrow> set t \<subseteq> set other"
    using scan_sound [of "term_sort t" "term_sort other"]
      scan_complete [of "term_sort t" "term_sort other"] sorted_keys_term_sort [of other] by auto
  then show ?thesis by (simp add: term_subset_scan)
qed

section \<open>What flattening computes\<close>

text \<open>A term chosen from a list of expressions: one of its values for each of them, in order.\<close>

definition choice_of :: "label_expression list \<Rightarrow> topologyTerm \<Rightarrow> bool" where
  "choice_of es t \<longleftrightarrow> list_all2 (\<lambda>e s. Key s = exp_key e \<and> Val s \<in> set (exp_values e)) es t"

definition all_valued :: "label_expression list \<Rightarrow> bool" where
  "all_valued es \<longleftrightarrow> (\<forall>e\<in>set es. exp_values e \<noteq> [])"

lemma choice_of_simps [simp]:
  "choice_of [] t \<longleftrightarrow> t = []"
  "choice_of (e # es) [] \<longleftrightarrow> False"
  "choice_of (e # es) (s # t) \<longleftrightarrow> (Key s = exp_key e \<and> Val s \<in> set (exp_values e)) \<and> choice_of es t"
  by (auto simp: choice_of_def)

lemma choice_of_Cons:
  "choice_of (e # es) t \<longleftrightarrow> (\<exists>v u. t = seg (exp_key e) v # u \<and> v \<in> set (exp_values e) \<and> choice_of es u)"
  by (cases t) (auto intro!: topologySegment.equality)

lemma set_distribute:
  "olds \<noteq> [] \<Longrightarrow> set (distribute olds k vs) = {oldTerm @ [seg k v] | oldTerm v. oldTerm \<in> set olds \<and> v \<in> set vs}"
  by (induction vs) auto

lemma distribute_first: "distribute [] k vs = map (\<lambda>v. [seg k v]) vs"
  by (induction vs) auto

lemma length_distribute: "olds \<noteq> [] \<Longrightarrow> length (distribute olds k vs) = length olds * length vs"
  by (induction vs) auto

lemma distribute_eq_Nil [simp]: "distribute olds k vs = [] \<longleftrightarrow> vs = []"
  by (cases vs) auto

lemma set_flatten_term:
  "all_valued es \<Longrightarrow> olds \<noteq> [] \<Longrightarrow>
   set (flatten_term olds es) = {oldTerm @ t | oldTerm t. oldTerm \<in> set olds \<and> choice_of es t}"
proof (induction es arbitrary: olds)
  case Nil
  then show ?case by auto
next
  case (Cons e es)
  let ?new = "distribute olds (exp_key e) (exp_values e)"
  from Cons.prems have "all_valued es" "?new \<noteq> []" by (auto simp: all_valued_def)
  from Cons.IH [OF this] have
    "set (flatten_term olds (e # es)) = {n @ t | n t. n \<in> set ?new \<and> choice_of es t}" by simp
  also have "\<dots> = {oldTerm @ t | oldTerm t. oldTerm \<in> set olds \<and> choice_of (e # es) t}"
  proof -
    have "\<exists>n u. oldTerm @ seg (exp_key e) v # t = n @ u \<and> n \<in> set ?new \<and> choice_of es u"
      if "oldTerm \<in> set olds" "v \<in> set (exp_values e)" "choice_of es t" for oldTerm v t
      using that Cons.prems(2)
      by (intro exI [of _ "oldTerm @ [seg (exp_key e) v]"] exI [of _ t]) (auto simp: set_distribute)
    then show ?thesis using Cons.prems(2) by (fastforce simp: set_distribute choice_of_Cons)
  qed
  finally show ?case .
qed

text \<open>Where every expression has a value, flattening is the product of the value lists.\<close>

lemma set_flatten_term_Nil:
  assumes "all_valued es"
  shows "set (flatten_term [] es) = {t. es \<noteq> [] \<and> choice_of es t}"
proof (cases es)
  case Nil
  then show ?thesis by simp
next
  case (Cons e es')
  with assms have "exp_values e \<noteq> []" "all_valued es'" by (auto simp: all_valued_def)
  then have "set (flatten_term (distribute [] (exp_key e) (exp_values e)) es')
      = {oldTerm @ t | oldTerm t. oldTerm \<in> set (distribute [] (exp_key e) (exp_values e)) \<and> choice_of es' t}"
    by (intro set_flatten_term) auto
  moreover have "{oldTerm @ t | oldTerm t. oldTerm \<in> set (distribute [] k vs) \<and> P t}
      = {seg k v # t | v t. v \<in> set vs \<and> P t}" for k vs and P :: "topologyTerm \<Rightarrow> bool"
    by (auto simp: distribute_first image_iff) (metis append_Cons append_Nil)
  ultimately have "set (flatten_term [] es)
      = {seg (exp_key e) v # t | v t. v \<in> set (exp_values e) \<and> choice_of es' t}"
    using Cons by simp
  with Cons show ?thesis by (auto simp: choice_of_Cons)
qed

lemma length_flatten_term:
  "all_valued es \<Longrightarrow> olds \<noteq> [] \<Longrightarrow>
   length (flatten_term olds es) = length olds * prod_list (map (\<lambda>e. length (exp_values e)) es)"
proof (induction es arbitrary: olds)
  case Nil
  then show ?case by simp
next
  case (Cons e es)
  then have "all_valued es" "distribute olds (exp_key e) (exp_values e) \<noteq> []"
    by (auto simp: all_valued_def)
  from Cons.IH [OF this] Cons.prems(2) show ?case
    by (simp add: length_distribute)
qed

lemma flatten_term_append: "flatten_term olds (es @ fs) = flatten_term (flatten_term olds es) fs"
  by (induction es arbitrary: olds) auto

lemma flatten_term_empty_values:
  "exp_values e = [] \<Longrightarrow> flatten_term olds (es @ e # fs) = flatten_term [] fs"
  by (simp add: flatten_term_append)

lemma set_flatten_terms: "set (flatten_terms ts) = (\<Union>t\<in>set ts. set (flatten_term [] (MatchLabelExpressions t)))"
  by (induction ts) auto

section \<open>What the node provides\<close>

definition labelled :: "node \<Rightarrow> string list \<Rightarrow> bool" where
  "labelled n keys \<longleftrightarrow> (\<forall>k\<in>set keys. node_Labels n k \<noteq> None)"

lemma node_segments_None: "node_segments n keys = None \<longleftrightarrow> \<not> labelled n keys"
  by (induction keys) (auto simp: labelled_def split: option.splits)

lemma node_segments_Some:
  "node_segments n keys = Some t \<Longrightarrow>
   set t = {seg k v | k v. k \<in> set keys \<and> node_Labels n k = Some v} \<and> map Key t = keys"
  by (induction keys arbitrary: t) (auto split: option.splits)

lemma functional_node_segments: "node_segments n keys = Some t \<Longrightarrow> functional_term t"
  unfolding functional_term_def by (drule node_segments_Some) auto

section \<open>The declarative reading of allowed topologies\<close>

text \<open>
  An expression holds when the node carries, under one of the driver's keys, one of the values it
  lists; a term is a conjunction of at least one expression, and the allowed topologies of a class
  are a disjunction of terms.
\<close>

definition expression_holds :: "node \<Rightarrow> string list \<Rightarrow> label_expression \<Rightarrow> bool" where
  "expression_holds n keys e \<longleftrightarrow>
     exp_key e \<in> set keys \<and>
     (case node_Labels n (exp_key e) of None \<Rightarrow> False | Some v \<Rightarrow> v \<in> set (exp_values e))"

definition node_allowed :: "node \<Rightarrow> string list \<Rightarrow> selector_term list \<Rightarrow> bool" where
  "node_allowed n keys ts \<longleftrightarrow>
     list_ex (\<lambda>t. MatchLabelExpressions t \<noteq> [] \<and>
                  list_all (expression_holds n keys) (MatchLabelExpressions t)) ts"

text \<open>
  What the Kubernetes API server validates of a storage class before storing it: each expression
  has values, and the keys of one term differ.
\<close>

definition valid_topologies :: "selector_term list \<Rightarrow> bool" where
  "valid_topologies ts \<longleftrightarrow>
     list_all (\<lambda>t. list_all (\<lambda>e. exp_values e \<noteq> []) (MatchLabelExpressions t) \<and>
                   distinct (map exp_key (MatchLabelExpressions t))) ts"

lemma choice_of_keys: "choice_of es t \<Longrightarrow> map Key t = map exp_key es"
  by (induction es arbitrary: t) (auto simp: choice_of_Cons)

lemma choice_on_node:
  "(\<exists>t. choice_of es t \<and> set t \<subseteq> {seg k v | k v. k \<in> set keys \<and> node_Labels n k = Some v})
   \<longleftrightarrow> list_all (expression_holds n keys) es"
  (is "(\<exists>t. ?P es t) \<longleftrightarrow> _")
proof (induction es)
  case Nil
  then show ?case by auto
next
  case (Cons e es)
  have "(\<exists>t. ?P (e # es) t)" if holds: "expression_holds n keys e" and t: "?P es t" for t
  proof -
    from holds obtain v where "node_Labels n (exp_key e) = Some v" "v \<in> set (exp_values e)"
        "exp_key e \<in> set keys"
      by (auto simp: expression_holds_def split: option.splits)
    with t have "?P (e # es) (seg (exp_key e) v # t)" by auto
    then show ?thesis by blast
  qed
  moreover have "expression_holds n keys e \<and> (\<exists>t. ?P es t)" if "?P (e # es) t" for t
    using that by (auto simp: choice_of_Cons expression_holds_def)
  ultimately have "(\<exists>t. ?P (e # es) t) \<longleftrightarrow> expression_holds n keys e \<and> (\<exists>t. ?P es t)" by blast
  with Cons show ?case by simp
qed

lemma flatten_decides:
  assumes valid: "valid_topologies ts" and segs: "node_segments n keys = Some sel"
  shows "(\<exists>t\<in>set (flatten ts). term_subset t (term_sort sel) = Done True) \<longleftrightarrow> node_allowed n keys ts"
proof -
  let ?node = "{seg k v | k v. k \<in> set keys \<and> node_Labels n k = Some v}"
  have one: "(\<exists>u\<in>set (flatten_term [] es). term_subset (term_sort u) (term_sort sel) = Done True)
      \<longleftrightarrow> es \<noteq> [] \<and> list_all (expression_holds n keys) es"
    if t: "t \<in> set ts" and es: "es = MatchLabelExpressions t" for t es
  proof -
    from valid t es have av: "all_valued es" and dk: "distinct (map exp_key es)"
      by (auto simp: valid_topologies_def all_valued_def list_all_iff)
    have "term_subset (term_sort u) (term_sort sel) = Done (set u \<subseteq> ?node)" if "choice_of es u" for u
      using that dk segs node_segments_Some [OF segs]
      by (subst term_subset_iff) (auto simp: choice_of_keys functional_node_segments)
    then show ?thesis
      using choice_on_node [of es keys n] by (auto simp: set_flatten_term_Nil [OF av])
  qed
  have "(\<exists>t\<in>set (flatten ts). term_subset t (term_sort sel) = Done True)
      \<longleftrightarrow> (\<exists>t\<in>set ts. \<exists>u\<in>set (flatten_term [] (MatchLabelExpressions t)).
             term_subset (term_sort u) (term_sort sel) = Done True)"
    by (auto simp: flatten_def set_flatten_terms)
  also have "\<dots> \<longleftrightarrow> node_allowed n keys ts"
    using one by (auto simp: node_allowed_def list_ex_iff)
  finally show ?thesis .
qed

section \<open>CSI topologies\<close>

lemma term_segments_snoc: "term_segments (t @ [a]) = (term_segments t)(Key a \<mapsto> Val a)"
  by (simp add: term_segments_def)

lemma term_segments_iff:
  "distinct (map Key t) \<Longrightarrow> term_segments t k = Some v \<longleftrightarrow> seg k v \<in> set t"
proof (induction t rule: rev_induct)
  case Nil
  then show ?case by (simp add: term_segments_def)
next
  case (snoc a t)
  then have "Key a \<notin> Key ` set t" by auto
  then have "seg (Key a) w \<notin> set t" for w by (metis image_eqI topologySegment.select_convs(1))
  with snoc show ?case
    by (cases a) (auto simp: term_segments_snoc)
qed

section \<open>Properties\<close>

text \<open>
  A node and a class as in the project's README: zones of one region.
\<close>

definition zone_key :: string where "zone_key = ''zone''"
definition region_key :: string where "region_key = ''region''"

definition sample_node :: node where
  "sample_node = \<lparr>node_name = ''node-1'', node_Labels = [region_key \<mapsto> ''r1'', zone_key \<mapsto> ''pve-3''],
     node_Unschedulable = False\<rparr>"

definition sample_topologies :: "selector_term list" where
  "sample_topologies =
     [\<lparr>MatchLabelExpressions =
        [\<lparr>exp_key = zone_key, exp_values = [''pve-1'', ''pve-3'']\<rparr>,
         \<lparr>exp_key = region_key, exp_values = [''r1'']\<rparr>]\<rparr>]"

definition sample_segments :: topologyTerm where
  "sample_segments = [seg region_key ''r1'', seg zone_key ''pve-3'']"

lemma sample_getTopologyFromNode:
  "getTopologyFromNode sample_node [zone_key, region_key] = (sample_segments, False)"
  by (simp add: getTopologyFromNode_def sample_node_def sample_segments_def zone_key_def region_key_def
      term_sort_def segment_cmp_def strings_Compare_def Let_def)

text \<open>
  C17: the flattening and the inclusion test together decide allowed topologies: for topologies the
  API server accepts, some flattened term is included in the node's topology exactly when the
  declarative reading of the allowed topologies holds for the node and the driver's keys.
\<close>

theorem flatten_subset_decides:
  assumes "valid_topologies ts" and "getTopologyFromNode n keys = (sel, False)"
  shows "(\<exists>t\<in>set (flatten ts). term_subset t sel = Done True) \<longleftrightarrow> node_allowed n keys ts"
proof -
  from assms(2) obtain s where "node_segments n keys = Some s" "sel = term_sort s"
    by (auto simp: getTopologyFromNode_def split: option.splits)
  with flatten_decides [OF assms(1)] show ?thesis by simp
qed

theorem flatten_subset_decides_witness:
  "valid_topologies sample_topologies \<and>
   getTopologyFromNode sample_node [zone_key, region_key] = (sample_segments, False) \<and>
   (\<exists>t\<in>set (flatten sample_topologies). term_subset t sample_segments = Done True)"
proof -
  have v: "valid_topologies sample_topologies"
    by (simp add: valid_topologies_def sample_topologies_def zone_key_def region_key_def)
  have "node_allowed sample_node [zone_key, region_key] sample_topologies"
    by (simp add: node_allowed_def sample_topologies_def sample_node_def expression_holds_def
        zone_key_def region_key_def)
  with v sample_getTopologyFromNode flatten_subset_decides [OF v sample_getTopologyFromNode]
  show ?thesis by simp
qed

text \<open>
  The merge scan of \<^verbatim>\<open>subset\<close> on sorted terms is set inclusion, where the keys of the first
  term differ and the second gives each key one value.
\<close>

theorem subset_is_inclusion:
  assumes "distinct (map Key t)" and "functional_term other"
  shows "term_subset (term_sort t) (term_sort other) = Done (set t \<subseteq> set other)"
  using assms by (rule term_subset_iff)

theorem subset_is_inclusion_witness:
  "term_subset (term_sort [seg zone_key ''pve-3'']) (term_sort sample_segments) = Done True"
proof -
  have "distinct (map Key [seg zone_key ''pve-3''])" by simp
  moreover have "functional_term sample_segments"
    by (simp add: functional_term_def sample_segments_def zone_key_def region_key_def)
  ultimately show ?thesis using subset_is_inclusion by (simp add: sample_segments_def)
qed

text \<open>
  \<^verbatim>\<open>subset\<close> never indexes out of range, for any two terms, sorted or not, and where it answers
  true the first term really is included in the second.
\<close>

theorem subset_no_panic_sound:
  "term_subset t other = Done False \<or> (term_subset t other = Done True \<and> set t \<subseteq> set other)"
  using scan_sound by (auto simp: term_subset_scan)

text \<open>
  \<^verbatim>\<open>compare\<close> never indexes out of range and is a total order on terms: zero exactly on equal
  terms, antisymmetric in its sign, and transitive.
\<close>

theorem compare_total_order:
  "\<exists>cmp. (\<forall>t u. term_compare t u = Done (cmp t u)) \<and> compare_func cmp"
  using term_compare_cmp terms.compare_func_axioms by blast

text \<open>
  Flattening one selector term yields as many terms as the product of its numbers of values.
\<close>

theorem flatten_size:
  assumes "all_valued es" and "es \<noteq> []"
  shows "length (flatten [\<lparr>MatchLabelExpressions = es\<rparr>]) = prod_list (map (\<lambda>e. length (exp_values e)) es)"
proof (cases es)
  case (Cons e es')
  with assms(1) have "all_valued es'" "distribute [] (exp_key e) (exp_values e) \<noteq> []"
    by (auto simp: all_valued_def)
  from length_flatten_term [OF this] Cons show ?thesis
    by (simp add: flatten_def distribute_first)
qed (use assms in simp)

theorem flatten_size_witness:
  "length (flatten [\<lparr>MatchLabelExpressions =
      [\<lparr>exp_key = zone_key, exp_values = [''a'', ''b'']\<rparr>, \<lparr>exp_key = region_key, exp_values = [''c'']\<rparr>]\<rparr>]) = 2"
  by (subst flatten_size) (simp_all add: all_valued_def)

text \<open>
  An expression without values, which the API server rejects, does not make its term
  unsatisfiable: flattening forgets it and every expression before it, because the code takes an
  empty list of terms for the start of the loop.
\<close>

theorem flatten_forgets_empty_values:
  assumes "exp_values e = []"
  shows "flatten [\<lparr>MatchLabelExpressions = es @ e # fs\<rparr>] = flatten [\<lparr>MatchLabelExpressions = fs\<rparr>]"
  using assms by (simp add: flatten_def flatten_term_empty_values)

theorem flatten_forgets_empty_values_witness:
  "flatten [\<lparr>MatchLabelExpressions = [\<lparr>exp_key = zone_key, exp_values = []\<rparr>, \<lparr>exp_key = region_key, exp_values = [''r1'']\<rparr>]\<rparr>]
   = [[seg region_key ''r1'']]"
  using flatten_forgets_empty_values [of "\<lparr>exp_key = zone_key, exp_values = []\<rparr>" "[]"
      "[\<lparr>exp_key = region_key, exp_values = [''r1'']\<rparr>]"]
  by (simp add: flatten_def term_sort_def)

text \<open>
  C29: \<^verbatim>\<open>getTopologyFromNode\<close> reports a missing key exactly when the node lacks one of the keys;
  otherwise its term holds exactly the node's value for each key, sorted by key.
\<close>

theorem getTopologyFromNode_correct:
  "getTopologyFromNode n keys =
     (if labelled n keys
      then (term_sort (map (\<lambda>k. seg k (the (node_Labels n k))) keys), False)
      else ([], True))"
proof -
  have "labelled n keys \<Longrightarrow> node_segments n keys = Some (map (\<lambda>k. seg k (the (node_Labels n k))) keys)"
    by (induction keys) (auto simp: labelled_def)
  then show ?thesis
    using node_segments_None [of n keys] by (auto simp: getTopologyFromNode_def)
qed

text \<open>
  A CSI topology carries the segments of its term: with distinct keys, its map holds exactly the
  pairs of the term.
\<close>

theorem toCSITopology_pairs:
  assumes "distinct (map Key t)"
  shows "toCSITopology [t] = [m] \<longleftrightarrow> (\<forall>k v. m k = Some v \<longleftrightarrow> seg k v \<in> set t)"
proof
  assume "toCSITopology [t] = [m]"
  then show "\<forall>k v. m k = Some v \<longleftrightarrow> seg k v \<in> set t"
    using term_segments_iff [OF assms] by (auto simp: toCSITopology_def)
next
  assume "\<forall>k v. m k = Some v \<longleftrightarrow> seg k v \<in> set t"
  then have "m k = term_segments t k" for k
    using term_segments_iff [OF assms] by (metis not_None_eq)
  then show "toCSITopology [t] = [m]" by (auto simp: toCSITopology_def)
qed

theorem toCSITopology_pairs_witness:
  "toCSITopology [sample_segments] = [[zone_key \<mapsto> ''pve-3'', region_key \<mapsto> ''r1'']]"
  by (subst toCSITopology_pairs)
    (auto simp: sample_segments_def zone_key_def region_key_def)

end
