(* ===== verification/Kube.thy ===== *)
theory Kube
  imports Topology
begin

text \<open>
  The Kubernetes objects the code reads and writes, with the fields it uses, and the outside world:
  the API server behind \<^verbatim>\<open>client-go\<close>, the informer caches and \<^verbatim>\<open>wait.ExponentialBackoff\<close> are
  parameters. A \<open>client\<close> holds one function per call, over an unknown environment state \<open>'e\<close>: each
  call may answer anything and change the environment in any way, so other actors of the cluster
  are covered. The model records every call with its answer in a log.
\<close>

section \<open>Objects\<close>

record storage_class =
  sc_Name :: string
  sc_Provisioner :: string
  sc_Parameters :: "string \<rightharpoonup> string"
  sc_ReclaimPolicy :: "string option"
  sc_AllowedTopologies :: "selector_term list"

record csi_driver =
  csid_name :: string

record resource_requirements =
  res_Requests :: "string \<rightharpoonup> string"
  res_Limits :: "string \<rightharpoonup> string"

record pvc =
  pvc_APIVersion :: string
  pvc_Kind :: string
  pvc_Name :: string
  pvc_Namespace :: string
  pvc_UID :: string
  pvc_Annotations :: "string \<rightharpoonup> string"
  pvc_Finalizers :: "string list"
  pvc_AccessModes :: "string list"
  pvc_StorageClassName :: "string option"
  pvc_Resources :: resource_requirements
  pvc_VolumeMode :: "string option"
  pvc_VolumeName :: string
  pvc_Phase :: string

text \<open>The zero values from which Go's composite literals start.\<close>

definition zero_resources :: resource_requirements where
  "zero_resources = \<lparr>res_Requests = Map.empty, res_Limits = Map.empty\<rparr>"

definition zero_pvc :: pvc where
  "zero_pvc = \<lparr>pvc_APIVersion = [], pvc_Kind = [], pvc_Name = [], pvc_Namespace = [], pvc_UID = [],
     pvc_Annotations = Map.empty, pvc_Finalizers = [], pvc_AccessModes = [],
     pvc_StorageClassName = None, pvc_Resources = zero_resources, pvc_VolumeMode = None,
     pvc_VolumeName = [], pvc_Phase = []\<rparr>"

record object_reference =
  ref_APIVersion :: string
  ref_Kind :: string
  ref_Name :: string
  ref_Namespace :: string
  ref_UID :: string

record pv =
  pv_Name :: string
  pv_ResourceVersion :: string
  pv_ReclaimPolicy :: string
  pv_ClaimRef :: "object_reference option"
  pv_StorageClassName :: string

record container =
  ctr_Name :: string
  ctr_Image :: string
  ctr_Resources :: resource_requirements

record toleration =
  tol_Key :: string
  tol_Operator :: string

record pod_volume =
  vol_Name :: string
  vol_ClaimName :: "string option"

record pod =
  pod_Name :: string
  pod_Namespace :: string
  pod_RestartPolicy :: string
  pod_Containers :: "container list"
  pod_Tolerations :: "toleration list"
  pod_NodeSelector :: "string \<rightharpoonup> string"
  pod_Volumes :: "pod_volume list"
  pod_NodeName :: string
  pod_Phase :: string

definition zero_pod :: pod where
  "zero_pod = \<lparr>pod_Name = [], pod_Namespace = [], pod_RestartPolicy = [], pod_Containers = [],
     pod_Tolerations = [], pod_NodeSelector = Map.empty, pod_Volumes = [], pod_NodeName = [],
     pod_Phase = []\<rparr>"

text \<open>
  Watch events. The object is an interface value in Go; \<open>None\<close> stands for a value of another type,
  on which the code's type assertion fails.
\<close>

datatype event_type = Added | Modified | Deleted | Bookmark | WatchError

record 'o watch_event =
  ev_Type :: event_type
  ev_Object :: "'o option"

text \<open>
  The body of a merge patch: raw text, or a claim the code hands to \<^verbatim>\<open>json.Marshal\<close>.
\<close>

datatype patch_body = Raw string | Marshalled pvc

section \<open>The log of calls\<close>

datatype call =
    ListerGetPVC string string "api_error + pvc"
  | CreatePVC string pvc "api_error + pvc"
  | GetPVC string string "api_error + pvc"
  | PatchPVC string string patch_body "api_error + pvc"
  | DeletePVC string string "string option" "api_error option"
  | WatchPVC string string "api_error + pvc watch_event select_run"
  | GetPV string "api_error + pv"
  | PatchPV string patch_body "api_error + pv"
  | WatchPV string "api_error + pv watch_event select_run"
  | CreatePod string pod "pod \<times> api_error option"
  | DeletePod string string "api_error option"
  | ListPods string "api_error + pod list"
  | GetNode string "api_error + node"
  | PatchNode string patch_body "api_error option"
  | ListCSINodes "api_error + csi_node list"

record 'e world =
  env :: 'e
  calls :: "call list"

record backoff =
  bo_Duration :: int
  bo_Factor :: int
  bo_Steps :: int

record 'e client =
  cl_ListerGetPVC :: "string \<Rightarrow> string \<Rightarrow> 'e \<Rightarrow> (api_error + pvc) \<times> 'e"
  cl_CreatePVC :: "string \<Rightarrow> pvc \<Rightarrow> 'e \<Rightarrow> (api_error + pvc) \<times> 'e"
  cl_GetPVC :: "string \<Rightarrow> string \<Rightarrow> 'e \<Rightarrow> (api_error + pvc) \<times> 'e"
  cl_PatchPVC :: "string \<Rightarrow> string \<Rightarrow> patch_body \<Rightarrow> 'e \<Rightarrow> (api_error + pvc) \<times> 'e"
  cl_DeletePVC :: "string \<Rightarrow> string \<Rightarrow> string option \<Rightarrow> 'e \<Rightarrow> api_error option \<times> 'e"
  cl_WatchPVC :: "string \<Rightarrow> string \<Rightarrow> 'e \<Rightarrow> (api_error + pvc watch_event select_run) \<times> 'e"
  cl_GetPV :: "string \<Rightarrow> 'e \<Rightarrow> (api_error + pv) \<times> 'e"
  cl_PatchPV :: "string \<Rightarrow> patch_body \<Rightarrow> 'e \<Rightarrow> (api_error + pv) \<times> 'e"
  cl_WatchPV :: "string \<Rightarrow> 'e \<Rightarrow> (api_error + pv watch_event select_run) \<times> 'e"
  cl_CreatePod :: "string \<Rightarrow> pod \<Rightarrow> 'e \<Rightarrow> (pod \<times> api_error option) \<times> 'e"
  cl_DeletePod :: "string \<Rightarrow> string \<Rightarrow> 'e \<Rightarrow> api_error option \<times> 'e"
  cl_ListPods :: "string \<Rightarrow> 'e \<Rightarrow> (api_error + pod list) \<times> 'e"
  cl_GetNode :: "string \<Rightarrow> 'e \<Rightarrow> (api_error + node) \<times> 'e"
  cl_PatchNode :: "string \<Rightarrow> patch_body \<Rightarrow> 'e \<Rightarrow> api_error option \<times> 'e"
  cl_ListCSINodes :: "'e \<Rightarrow> (api_error + csi_node list) \<times> 'e"
  cl_ExponentialBackoff :: "backoff \<Rightarrow> ('e world, go_error + bool) state \<Rightarrow> ('e world, go_error + unit) state"

section \<open>Performing a call\<close>

definition perform :: "('e \<Rightarrow> 'r \<times> 'e) \<Rightarrow> ('r \<Rightarrow> call) \<Rightarrow> ('e world, 'r) state" where
  "perform f c = State (\<lambda>w. case f (env w) of (r, e') \<Rightarrow> (r, w\<lparr>env := e', calls := calls w @ [c r]\<rparr>))"

definition lister_get_pvc :: "'e client \<Rightarrow> string \<Rightarrow> string \<Rightarrow> ('e world, api_error + pvc) state" where
  "lister_get_pvc c ns name = perform (cl_ListerGetPVC c ns name) (ListerGetPVC ns name)"

definition create_pvc :: "'e client \<Rightarrow> string \<Rightarrow> pvc \<Rightarrow> ('e world, api_error + pvc) state" where
  "create_pvc c ns x = perform (cl_CreatePVC c ns x) (CreatePVC ns x)"

definition get_pvc :: "'e client \<Rightarrow> string \<Rightarrow> string \<Rightarrow> ('e world, api_error + pvc) state" where
  "get_pvc c ns name = perform (cl_GetPVC c ns name) (GetPVC ns name)"

definition patch_pvc :: "'e client \<Rightarrow> string \<Rightarrow> string \<Rightarrow> patch_body \<Rightarrow> ('e world, api_error + pvc) state" where
  "patch_pvc c ns name b = perform (cl_PatchPVC c ns name b) (PatchPVC ns name b)"

definition delete_pvc :: "'e client \<Rightarrow> string \<Rightarrow> string \<Rightarrow> string option \<Rightarrow> ('e world, api_error option) state" where
  "delete_pvc c ns name policy = perform (cl_DeletePVC c ns name policy) (DeletePVC ns name policy)"

definition watch_pvc :: "'e client \<Rightarrow> string \<Rightarrow> string \<Rightarrow> ('e world, api_error + pvc watch_event select_run) state" where
  "watch_pvc c ns sel = perform (cl_WatchPVC c ns sel) (WatchPVC ns sel)"

definition get_pv :: "'e client \<Rightarrow> string \<Rightarrow> ('e world, api_error + pv) state" where
  "get_pv c name = perform (cl_GetPV c name) (GetPV name)"

definition patch_pv :: "'e client \<Rightarrow> string \<Rightarrow> patch_body \<Rightarrow> ('e world, api_error + pv) state" where
  "patch_pv c name b = perform (cl_PatchPV c name b) (PatchPV name b)"

definition watch_pv :: "'e client \<Rightarrow> string \<Rightarrow> ('e world, api_error + pv watch_event select_run) state" where
  "watch_pv c sel = perform (cl_WatchPV c sel) (WatchPV sel)"

definition create_pod :: "'e client \<Rightarrow> string \<Rightarrow> pod \<Rightarrow> ('e world, pod \<times> api_error option) state" where
  "create_pod c ns x = perform (cl_CreatePod c ns x) (CreatePod ns x)"

definition delete_pod :: "'e client \<Rightarrow> string \<Rightarrow> string \<Rightarrow> ('e world, api_error option) state" where
  "delete_pod c ns name = perform (cl_DeletePod c ns name) (DeletePod ns name)"

definition list_pods :: "'e client \<Rightarrow> string \<Rightarrow> ('e world, api_error + pod list) state" where
  "list_pods c ns = perform (cl_ListPods c ns) (ListPods ns)"

definition get_node :: "'e client \<Rightarrow> string \<Rightarrow> ('e world, api_error + node) state" where
  "get_node c name = perform (cl_GetNode c name) (GetNode name)"

definition patch_node :: "'e client \<Rightarrow> string \<Rightarrow> patch_body \<Rightarrow> ('e world, api_error option) state" where
  "patch_node c name b = perform (cl_PatchNode c name b) (PatchNode name b)"

definition list_csi_nodes :: "'e client \<Rightarrow> ('e world, api_error + csi_node list) state" where
  "list_csi_nodes c = perform (cl_ListCSINodes c) ListCSINodes"

lemmas call_defs =
  lister_get_pvc_def create_pvc_def get_pvc_def patch_pvc_def delete_pvc_def watch_pvc_def
  get_pv_def patch_pv_def watch_pv_def create_pod_def delete_pod_def list_pods_def
  get_node_def patch_node_def list_csi_nodes_def

lemma run_perform [simp]:
  "run_state (perform f c) w =
     (fst (f (env w)), w\<lparr>env := snd (f (env w)), calls := calls w @ [c (fst (f (env w)))]\<rparr>)"
  by (simp add: perform_def split: prod.splits)

text \<open>
  The Hoare rule of a call, for assertions about the log: whatever the environment answers, the log
  grows by the call with that answer.
\<close>

definition on_log :: "(call list \<Rightarrow> bool) \<Rightarrow> 'e world \<Rightarrow> bool" where
  "on_log P w \<longleftrightarrow> P (calls w)"

lemma triple_perform:
  "(\<And>tr r. P tr \<Longrightarrow> Q r (tr @ [c r])) \<Longrightarrow>
   triple (on_log P) (perform f c) (\<lambda>r. on_log (Q r))"
  by (rule tripleI) (auto simp: on_log_def)

section \<open>Waiting with back-off\<close>

text \<open>
  \<^verbatim>\<open>wait.ExponentialBackoff\<close> is documented to check the condition up to \<^verbatim>\<open>Steps\<close> times, to stop as
  soon as the check returns true or an error, handing that error on, and to return a time-out
  otherwise. \<open>backoff_contract\<close> states this for a constant interval (factor 1), the only one used.
\<close>

definition backoff_contract :: "'e client \<Rightarrow> bool" where
  "backoff_contract c \<longleftrightarrow>
     (\<forall>b cond. bo_Factor b = 1 \<longrightarrow>
        cl_ExponentialBackoff c b cond =
          (if bo_Steps b \<le> 0 then State_Monad.return (Inl WaitTimeout)
           else do {
             r \<leftarrow> cond;
             case r of
               Inl err \<Rightarrow> State_Monad.return (Inl err)
             | Inr ok \<Rightarrow>
                 if ok then State_Monad.return (Inr ())
                 else cl_ExponentialBackoff c (b\<lparr>bo_Steps := bo_Steps b - 1\<rparr>) cond
           }))"

text \<open>The behaviour the contract fixes, by recursion on the number of steps.\<close>

fun retry :: "nat \<Rightarrow> ('s, go_error + bool) state \<Rightarrow> ('s, go_error + unit) state" where
  "retry 0 cond = State_Monad.return (Inl WaitTimeout)"
| "retry (Suc n) cond = do {
     r \<leftarrow> cond;
     case r of
       Inl err \<Rightarrow> State_Monad.return (Inl err)
     | Inr ok \<Rightarrow> if ok then State_Monad.return (Inr ()) else retry n cond
   }"

lemma retry_numeral:
  "retry (numeral k) cond = do {
     r \<leftarrow> cond;
     case r of
       Inl err \<Rightarrow> State_Monad.return (Inl err)
     | Inr ok \<Rightarrow> if ok then State_Monad.return (Inr ()) else retry (pred_numeral k) cond
   }"
  unfolding numeral_eq_Suc by simp

lemma backoff_retry:
  assumes "backoff_contract c" and "bo_Factor b = 1"
  shows "cl_ExponentialBackoff c b cond = retry (nat (bo_Steps b)) cond"
  using assms(2)
proof (induction "nat (bo_Steps b)" arbitrary: b)
  case 0
  with assms(1) show ?case by (simp add: backoff_contract_def)
next
  case (Suc n)
  let ?b = "b\<lparr>bo_Steps := bo_Steps b - 1\<rparr>"
  have n: "n = nat (bo_Steps ?b)" using Suc(2) by simp
  then have "cl_ExponentialBackoff c ?b cond = retry n cond"
    using Suc(1) [OF n] Suc.prems by simp
  moreover have "nat (bo_Steps b) = Suc n" "\<not> bo_Steps b \<le> 0" using Suc(2) by auto
  ultimately show ?case
    using assms(1) Suc.prems by (simp add: backoff_contract_def cong: if_cong sum.case_cong)
qed

text \<open>A condition repeated under an invariant.\<close>

lemma triple_retry:
  assumes step: "triple I cond (\<lambda>r w. case r of Inl err \<Rightarrow> Q (Inl err) w
      | Inr ok \<Rightarrow> if ok then Q (Inr ()) w else I w)"
    and out: "\<And>w. I w \<Longrightarrow> Q (Inl WaitTimeout) w"
  shows "triple I (retry n cond) Q"
proof (induction n)
  case 0
  show ?case using out by (auto intro: triple_rules)
next
  case (Suc n)
  have "triple ((\<lambda>r w. case r of Inl err \<Rightarrow> Q (Inl err) w | Inr ok \<Rightarrow> if ok then Q (Inr ()) w else I w) r)
      (case r of Inl err \<Rightarrow> State_Monad.return (Inl err)
       | Inr ok \<Rightarrow> if ok then State_Monad.return (Inr ()) else retry n cond) Q" for r
    using Suc by (cases r) (auto intro: triple_rules)
  with step show ?case unfolding retry.simps by (rule triple_bind)
qed

text \<open>A condition whose refusals are counted.\<close>

lemma triple_retry_counted:
  assumes "\<And>k. triple (I k) cond (\<lambda>r w. case r of Inl err \<Rightarrow> Q (Inl err) w
      | Inr ok \<Rightarrow> if ok then Q (Inr ()) w else I (Suc k) w)"
    and "\<And>w. I (k + n) w \<Longrightarrow> Q (Inl WaitTimeout) w"
  shows "triple (I k) (retry n cond) Q"
  using assms(2)
proof (induction n arbitrary: k)
  case 0
  then show ?case by (auto intro: triple_rules)
next
  case (Suc n)
  from Suc.prems have again: "triple (I (Suc k)) (retry n cond) Q" by (intro Suc.IH) simp
  have "triple ((\<lambda>r w. case r of Inl err \<Rightarrow> Q (Inl err) w | Inr ok \<Rightarrow> if ok then Q (Inr ()) w else I (Suc k) w) r)
      (case r of Inl err \<Rightarrow> State_Monad.return (Inl err)
       | Inr ok \<Rightarrow> if ok then State_Monad.return (Inr ()) else retry n cond) Q" for r
    using again by (cases r) (auto intro: triple_rules)
  with assms(1) [of k] show ?case unfolding retry.simps by (rule triple_bind)
qed

section \<open>A concrete instance of the parameters\<close>

text \<open>
  A client whose every call succeeds and leaves the environment alone, for the witnesses: the claim
  \<open>default/pvc-1\<close> gets bound to the volume \<open>pv-1\<close>. The sample client has the trivial environment.
\<close>

definition sample_claim :: pvc where
  "sample_claim = zero_pvc\<lparr>pvc_Name := ''pvc-1'', pvc_Namespace := ''default'', pvc_UID := ''u-1'',
     pvc_Finalizers := [''kubernetes.io/pvc-protection'', ''example.com/keep''],
     pvc_VolumeName := ''pv-1'', pvc_Phase := ''Bound''\<rparr>"

definition sample_pv :: pv where
  "sample_pv = \<lparr>pv_Name = ''pv-1'', pv_ResourceVersion = ''42'', pv_ReclaimPolicy = ''Retain'',
     pv_ClaimRef = None, pv_StorageClassName = ''proxmox''\<rparr>"

definition sample_events :: "pvc watch_event select_run" where
  "sample_events =
     Recv \<lparr>ev_Type = Added, ev_Object = Some (sample_claim\<lparr>pvc_Phase := ''Pending''\<rparr>)\<rparr>
       (Recv \<lparr>ev_Type = Modified, ev_Object = Some sample_claim\<rparr> TimerFired)"

definition calm_client :: "'e client" where
  "calm_client =
     \<lparr>cl_ListerGetPVC = (\<lambda>ns name e. (Inl (NotFound ''not in cache''), e)),
      cl_CreatePVC = (\<lambda>ns c e. (Inr c, e)),
      cl_GetPVC = (\<lambda>ns name e. (Inr sample_claim, e)),
      cl_PatchPVC = (\<lambda>ns name b e. (Inr sample_claim, e)),
      cl_DeletePVC = (\<lambda>ns name pol e. (None, e)),
      cl_WatchPVC = (\<lambda>ns sel e. (Inr sample_events, e)),
      cl_GetPV = (\<lambda>name e. (Inr sample_pv, e)),
      cl_PatchPV = (\<lambda>name b e. (Inr sample_pv, e)),
      cl_WatchPV = (\<lambda>sel e. (Inr (Recv \<lparr>ev_Type = Deleted, ev_Object = Some sample_pv\<rparr> TimerFired), e)),
      cl_CreatePod = (\<lambda>ns q e. ((q, None), e)),
      cl_DeletePod = (\<lambda>ns name e. (None, e)),
      cl_ListPods = (\<lambda>ns e. (Inr [], e)),
      cl_GetNode = (\<lambda>name e. (Inr \<lparr>node_name = name, node_Labels = Map.empty, node_Unschedulable = False\<rparr>, e)),
      cl_PatchNode = (\<lambda>name b e. (None, e)),
      cl_ListCSINodes = (\<lambda>e. (Inr [], e)),
      cl_ExponentialBackoff = (\<lambda>b cond. retry (nat (bo_Steps b)) cond)\<rparr>"

abbreviation sample_client :: "unit client" where
  "sample_client \<equiv> calm_client"

lemmas sample_client_def = calm_client_def

definition sample_world :: "unit world" where
  "sample_world = \<lparr>env = (), calls = []\<rparr>"

lemma retry_contract:
  assumes "cl_ExponentialBackoff c = (\<lambda>b cond. retry (nat (bo_Steps b)) cond)"
  shows "backoff_contract c"
  unfolding backoff_contract_def assms
proof (intro allI impI)
  fix b :: backoff and cond :: "('a world, go_error + bool) state"
  show "retry (nat (bo_Steps b)) cond =
      (if bo_Steps b \<le> 0 then State_Monad.return (Inl WaitTimeout)
       else do {
         r \<leftarrow> cond;
         case r of
           Inl err \<Rightarrow> State_Monad.return (Inl err)
         | Inr ok \<Rightarrow>
             if ok then State_Monad.return (Inr ())
             else retry (nat (bo_Steps (b\<lparr>bo_Steps := bo_Steps b - 1\<rparr>))) cond
       })"
  proof (cases "bo_Steps b \<le> 0")
    case False
    then have n: "nat (bo_Steps b) = Suc (nat (bo_Steps b - 1))" by simp
    have eq: "bo_Steps (b\<lparr>bo_Steps := bo_Steps b - 1\<rparr>) = bo_Steps b - 1" by simp
    show ?thesis unfolding eq using n False by simp
  qed simp
qed

lemma sample_client_contract: "backoff_contract sample_client"
  by (rule retry_contract) (simp add: sample_client_def)

end
