(* ===== verification/Selection.thy ===== *)
theory Selection
  imports Kube
begin

text \<open>
  \<^verbatim>\<open>HybridProvisioner\<close>, its constructor \<^verbatim>\<open>NewProvisioner\<close>, and the choice of the backing storage
  class, \<^verbatim>\<open>getStorageClassFromNode\<close>. The listers read informer caches; each is a function of the
  name, one snapshot per call of \<^verbatim>\<open>Provision\<close>. The specification \<open>first_eligible\<close> takes the first
  name of the list whose class fits the node.
\<close>

section \<open>The provisioner\<close>

definition DriverName :: string where
  "DriverName = ''csi.hybrid.sinextra.dev''"

definition DriverVersion :: string where
  "DriverVersion = ''0.1.0''"

definition defaultCreateProvisionedPVRetryCount :: int where
  "defaultCreateProvisionedPVRetryCount = 5"

definition defaultCreateProvisionedPVInterval :: int where
  \<comment> \<open>\<^verbatim>\<open>10 * time.Second\<close>, in nanoseconds\<close>
  "defaultCreateProvisionedPVInterval = 10 * 1000000000"

definition methodDefault :: string where
  "methodDefault = ''auto''"

definition methodPod :: string where
  "methodPod = ''pod''"

definition methodAnnotation :: string where
  "methodAnnotation = ''annotation''"

record 'e HybridProvisioner =
  hp_client :: "'e client"
  hp_method :: string
  hp_backoff :: backoff
  hp_driverLister :: "string \<Rightarrow> api_error + csi_driver option"
  hp_scLister :: "string \<Rightarrow> api_error + storage_class option"
  hp_csiNodeLister :: "string \<Rightarrow> api_error + csi_node option"
  hp_nodeLister :: "string \<Rightarrow> api_error + node option"

definition NewProvisioner ::
  "'e client \<Rightarrow> string \<Rightarrow> (string \<Rightarrow> api_error + csi_driver option) \<Rightarrow>
   (string \<Rightarrow> api_error + storage_class option) \<Rightarrow> (string \<Rightarrow> api_error + csi_node option) \<Rightarrow>
   (string \<Rightarrow> api_error + node option) \<Rightarrow> 'e HybridProvisioner" where
  "NewProvisioner c method drivers classes csiNodes nodes =
     \<lparr>hp_client = c,
      hp_method = (if method = methodDefault \<or> method = methodPod \<or> method = methodAnnotation
                   then method else methodDefault),
      hp_backoff = \<lparr>bo_Duration = defaultCreateProvisionedPVInterval, bo_Factor = 1,
                    bo_Steps = defaultCreateProvisionedPVRetryCount\<rparr>,
      hp_driverLister = drivers, hp_scLister = classes, hp_csiNodeLister = csiNodes,
      hp_nodeLister = nodes\<rparr>"

text \<open>What every provisioner built by \<^verbatim>\<open>NewProvisioner\<close> satisfies.\<close>

definition wf_provisioner :: "'e HybridProvisioner \<Rightarrow> bool" where
  "wf_provisioner p \<longleftrightarrow>
     hp_method p \<in> {methodDefault, methodPod, methodAnnotation} \<and>
     bo_Factor (hp_backoff p) = 1 \<and> bo_Steps (hp_backoff p) = defaultCreateProvisionedPVRetryCount"

lemma wf_NewProvisioner: "wf_provisioner (NewProvisioner c m ds cs ns nl)"
  by (simp add: wf_provisioner_def NewProvisioner_def)

section \<open>getStorageClassFromNode\<close>

definition nil_panic :: string where
  "nil_panic = ''invalid memory address or nil pointer dereference''"

fun any_subset :: "topologyTerm list \<Rightarrow> topologyTerm \<Rightarrow> bool run" where
  "any_subset [] selectedTopology = Done False"
| "any_subset (t # ts) selectedTopology =
     (case term_subset t selectedTopology of Panic m \<Rightarrow> Panic m
      | Done b \<Rightarrow> if b then Done True else any_subset ts selectedTopology)"

text \<open>Whether the class passes the block that looks at its allowed topologies.\<close>

definition topology_ok :: "csi_node \<Rightarrow> node \<Rightarrow> storage_class \<Rightarrow> bool run" where
  "topology_ok selectedCSINode selectedNode class =
     (if length (sc_AllowedTopologies class) > 0 then
        let topologyKeys = getTopologyKeys selectedCSINode (sc_Provisioner class);
            (selectedTopology, isMissingKey) = getTopologyFromNode selectedNode topologyKeys
        in if isMissingKey then Done False
           else any_subset (flatten (sc_AllowedTopologies class)) selectedTopology
      else Done True)"

fun has_driver :: "csi_node_driver list \<Rightarrow> string \<Rightarrow> bool" where
  "has_driver [] provisioner = False"
| "has_driver (d # ds) provisioner = (drv_name d = provisioner \<or> has_driver ds provisioner)"

text \<open>\<^verbatim>\<open>err != nil || driver == nil\<close>: the provisioner is not a CSI driver.\<close>

definition not_csi_driver :: "'e HybridProvisioner \<Rightarrow> string \<Rightarrow> bool" where
  "not_csi_driver p provisioner =
     (case hp_driverLister p provisioner of Inl err \<Rightarrow> True | Inr driver \<Rightarrow> driver = None)"

fun class_loop ::
  "'e HybridProvisioner \<Rightarrow> csi_node \<Rightarrow> node \<Rightarrow> string list \<Rightarrow> (go_error + storage_class) run" where
  "class_loop p selectedCSINode selectedNode [] =
     Done (Inl (Errorf ''no matching storage class found for selected node %q'' [node_name selectedNode]))"
| "class_loop p selectedCSINode selectedNode (storageClass # rest) =
     (case hp_scLister p storageClass of
        Inl err \<Rightarrow> class_loop p selectedCSINode selectedNode rest
      | Inr None \<Rightarrow> Panic nil_panic
      | Inr (Some class) \<Rightarrow>
          (case topology_ok selectedCSINode selectedNode class of
             Panic m \<Rightarrow> Panic m
           | Done ok \<Rightarrow>
               if \<not> ok then class_loop p selectedCSINode selectedNode rest
               else if not_csi_driver p (sc_Provisioner class) then Done (Inr class)
               else if has_driver (csin_Drivers selectedCSINode) (sc_Provisioner class) then Done (Inr class)
               else class_loop p selectedCSINode selectedNode rest))"

text \<open>The selected node is a pointer; a nil pointer is dereferenced in the first line.\<close>

definition getStorageClassFromNode ::
  "'e HybridProvisioner \<Rightarrow> node option \<Rightarrow> string list \<Rightarrow> (go_error + storage_class) run" where
  "getStorageClassFromNode p selected storageClasses =
     (case selected of
        None \<Rightarrow> Panic nil_panic
      | Some selectedNode \<Rightarrow>
          (case hp_csiNodeLister p (node_name selectedNode) of
             Inl err \<Rightarrow> Done (Inl (Wrapf ''error getting CSINode for selected node %q: %v''
                                     [node_name selectedNode] (ApiErr err)))
           | Inr None \<Rightarrow> Done (Inl (Errorf ''CSINode for selected node %q not found'' [node_name selectedNode]))
           | Inr (Some selectedCSINode) \<Rightarrow> class_loop p selectedCSINode selectedNode storageClasses))"

section \<open>Specification\<close>

text \<open>The class a name stands for in the cache, if any.\<close>

definition stored_class :: "'e HybridProvisioner \<Rightarrow> string \<Rightarrow> storage_class option" where
  "stored_class p name = (case hp_scLister p name of Inl err \<Rightarrow> None | Inr c \<Rightarrow> c)"

text \<open>
  A class fits a node when its allowed topologies, if it has any, allow the node under the topology
  keys its driver registered there, all of which the node carries as labels; and when its driver, if
  it is a CSI driver of the cluster, runs on the node.
\<close>

definition fits_node :: "'e HybridProvisioner \<Rightarrow> csi_node \<Rightarrow> node \<Rightarrow> storage_class \<Rightarrow> bool" where
  "fits_node p csi n class \<longleftrightarrow>
     (sc_AllowedTopologies class = [] \<or>
        labelled n (getTopologyKeys csi (sc_Provisioner class)) \<and>
        node_allowed n (getTopologyKeys csi (sc_Provisioner class)) (sc_AllowedTopologies class)) \<and>
     (not_csi_driver p (sc_Provisioner class) \<or>
        sc_Provisioner class \<in> set (map drv_name (csin_Drivers csi)))"

definition first_eligible :: "'e HybridProvisioner \<Rightarrow> csi_node \<Rightarrow> node \<Rightarrow> string list \<Rightarrow> storage_class option" where
  "first_eligible p csi n names = find (fits_node p csi n) (List.map_filter (stored_class p) names)"

text \<open>
  What the code relies on of the cache: a lister returns no nil class without an error, and the API
  server stored only classes it validated.
\<close>

definition cache_ok :: "'e HybridProvisioner \<Rightarrow> string list \<Rightarrow> bool" where
  "cache_ok p names \<longleftrightarrow>
     (\<forall>name\<in>set names. case hp_scLister p name of
        Inl err \<Rightarrow> True | Inr None \<Rightarrow> False | Inr (Some c) \<Rightarrow> valid_topologies (sc_AllowedTopologies c))"

lemma cache_ok_simps [simp]:
  "cache_ok p []"
  "cache_ok p (s # names) \<longleftrightarrow>
     (case hp_scLister p s of
        Inl err \<Rightarrow> True | Inr None \<Rightarrow> False | Inr (Some c) \<Rightarrow> valid_topologies (sc_AllowedTopologies c)) \<and>
     cache_ok p names"
  by (auto simp: cache_ok_def)

section \<open>Correctness of the choice\<close>

lemma any_subset_Done: "any_subset ts sel = Done (\<exists>t\<in>set ts. term_subset t sel = Done True)"
  by (induction ts) (auto simp: term_subset_scan)

lemma has_driver_iff: "has_driver ds name \<longleftrightarrow> name \<in> set (map drv_name ds)"
  by (induction ds) auto

lemma topology_ok_total: "\<exists>b. topology_ok csi n class = Done b"
  by (auto simp: topology_ok_def any_subset_Done Let_def split: prod.splits)

lemma topology_ok_iff:
  assumes "valid_topologies (sc_AllowedTopologies class)"
  shows "topology_ok csi n class =
     Done (sc_AllowedTopologies class = [] \<or>
        labelled n (getTopologyKeys csi (sc_Provisioner class)) \<and>
        node_allowed n (getTopologyKeys csi (sc_Provisioner class)) (sc_AllowedTopologies class))"
proof (cases "sc_AllowedTopologies class = []")
  case True
  then show ?thesis by (simp add: topology_ok_def)
next
  case False
  let ?keys = "getTopologyKeys csi (sc_Provisioner class)"
  show ?thesis
  proof (cases "node_segments n ?keys")
    case None
    with False show ?thesis
      using node_segments_None [of n ?keys] by (simp add: topology_ok_def getTopologyFromNode_def)
  next
    case (Some sel)
    then have "labelled n ?keys" using node_segments_None [of n ?keys] by auto
    with False Some show ?thesis
      using flatten_decides [OF assms Some]
      by (simp add: topology_ok_def getTopologyFromNode_def any_subset_Done)
  qed
qed

lemma class_loop_first:
  "cache_ok p names \<Longrightarrow>
   class_loop p csi n names =
     Done (case first_eligible p csi n names of
             Some c \<Rightarrow> Inr c
           | None \<Rightarrow> Inl (Errorf ''no matching storage class found for selected node %q'' [node_name n]))"
proof (induction names)
  case Nil
  then show ?case by (simp add: first_eligible_def)
next
  case (Cons s names)
  then have ih: "class_loop p csi n names =
     Done (case first_eligible p csi n names of
             Some c \<Rightarrow> Inr c
           | None \<Rightarrow> Inl (Errorf ''no matching storage class found for selected node %q'' [node_name n]))"
    by simp
  show ?case
  proof (cases "stored_class p s")
    case None
    with Cons.prems obtain err where "hp_scLister p s = Inl err"
      by (auto simp: stored_class_def split: sum.splits option.splits)
    with ih None show ?thesis by (simp add: first_eligible_def)
  next
    case (Some c)
    then have l: "hp_scLister p s = Inr (Some c)"
      by (auto simp: stored_class_def split: sum.splits)
    with Cons.prems have "valid_topologies (sc_AllowedTopologies c)" by simp
    from topology_ok_iff [OF this, of csi n] l Some ih show ?thesis
      by (auto simp: first_eligible_def fits_node_def has_driver_iff)
  qed
qed

lemma class_loop_no_panic:
  "\<forall>name\<in>set names. hp_scLister p name \<noteq> Inr None \<Longrightarrow> \<exists>r. class_loop p csi n names = Done r"
proof (induction names)
  case Nil
  then show ?case by simp
next
  case (Cons s names)
  then obtain r where r: "class_loop p csi n names = Done r" by auto
  have nn: "hp_scLister p s \<noteq> Inr None" using Cons.prems by simp
  show ?case
  proof (cases "stored_class p s")
    case None
    with nn obtain err where "hp_scLister p s = Inl err"
      by (auto simp: stored_class_def split: sum.splits)
    with r show ?thesis by simp
  next
    case (Some c)
    moreover obtain b where "topology_ok csi n c = Done b" using topology_ok_total by blast
    ultimately show ?thesis using r by (auto simp: stored_class_def split: sum.splits)
  qed
qed

lemma class_loop_provisioner_fits:
  "class_loop p csi n names = Done (Inr class) \<Longrightarrow>
   not_csi_driver p (sc_Provisioner class) \<or> has_driver (csin_Drivers csi) (sc_Provisioner class)"
  by (induction names) (auto split: sum.splits option.splits run.splits if_splits)

lemma node_allowed_no_keys: "\<not> node_allowed n [] ts"
proof
  assume "node_allowed n [] ts"
  then obtain t :: selector_term where "MatchLabelExpressions t \<noteq> []"
    and "list_all (expression_holds n []) (MatchLabelExpressions t)"
    by (auto simp: node_allowed_def list_ex_iff)
  then show False by (cases "MatchLabelExpressions t") (auto simp: expression_holds_def)
qed

lemma find_driver_keys_none: "name \<notin> set (map drv_name ds) \<Longrightarrow> find_driver_keys ds name = []"
  by (induction ds) auto

section \<open>Properties\<close>

text \<open>A cluster with two backing classes, one of them restricted to zones, as in the README.\<close>

definition sample_csi_node :: csi_node where
  "sample_csi_node = \<lparr>csin_name = ''node-1'', csin_Drivers =
     [\<lparr>drv_name = ''csi.proxmox'', drv_NodeID = ''id-1'', drv_TopologyKeys = [zone_key, region_key]\<rparr>]\<rparr>"

definition proxmox_class :: storage_class where
  "proxmox_class = \<lparr>sc_Name = ''proxmox'', sc_Provisioner = ''csi.proxmox'', sc_Parameters = Map.empty,
     sc_ReclaimPolicy = Some ''Delete'', sc_AllowedTopologies = sample_topologies\<rparr>"

definition hcloud_class :: storage_class where
  "hcloud_class = \<lparr>sc_Name = ''hcloud-volumes'', sc_Provisioner = ''csi.hetzner.cloud'', sc_Parameters = Map.empty,
     sc_ReclaimPolicy = Some ''Retain'', sc_AllowedTopologies = []\<rparr>"

definition sample_classes :: "string \<Rightarrow> api_error + storage_class option" where
  "sample_classes name =
     (if name = ''proxmox'' then Inr (Some proxmox_class)
      else if name = ''hcloud-volumes'' then Inr (Some hcloud_class)
      else Inl (NotFound ''storageclass not found''))"

definition sample_drivers :: "string \<Rightarrow> api_error + csi_driver option" where
  "sample_drivers name =
     (if name = ''csi.proxmox'' \<or> name = ''csi.hetzner.cloud'' then Inr (Some \<lparr>csid_name = name\<rparr>)
      else Inl (NotFound ''csidriver not found''))"

definition sample_csi_nodes :: "string \<Rightarrow> api_error + csi_node option" where
  "sample_csi_nodes name =
     (if name = ''node-1'' then Inr (Some sample_csi_node) else Inl (NotFound ''csinode not found''))"

definition sample_nodes :: "string \<Rightarrow> api_error + node option" where
  "sample_nodes name = (if name = ''node-1'' then Inr (Some sample_node) else Inl (NotFound ''node not found''))"

definition sample_provisioner :: "'e client \<Rightarrow> string \<Rightarrow> 'e HybridProvisioner" where
  "sample_provisioner c method =
     NewProvisioner c method sample_drivers sample_classes sample_csi_nodes sample_nodes"

lemma sample_provisioner_sel [simp]:
  "hp_client (sample_provisioner c m) = c"
  "hp_driverLister (sample_provisioner c m) = sample_drivers"
  "hp_scLister (sample_provisioner c m) = sample_classes"
  "hp_csiNodeLister (sample_provisioner c m) = sample_csi_nodes"
  by (simp_all add: sample_provisioner_def NewProvisioner_def)

lemma wf_sample_provisioner: "wf_provisioner (sample_provisioner c m)"
  unfolding sample_provisioner_def by (rule wf_NewProvisioner)

lemma valid_topologies_Nil: "valid_topologies []"
  by (simp add: valid_topologies_def)

lemma sample_keys: "getTopologyKeys sample_csi_node ''csi.proxmox'' = [zone_key, region_key]"
  by (simp add: getTopologyKeys_def sample_csi_node_def)

lemma sample_topologies_ok:
  "valid_topologies sample_topologies" "labelled sample_node [zone_key, region_key]"
  "node_allowed sample_node [zone_key, region_key] sample_topologies"
  by (simp_all add: valid_topologies_def labelled_def node_allowed_def expression_holds_def
      sample_topologies_def sample_node_def zone_key_def region_key_def)

lemma sample_driver_there: "''csi.proxmox'' \<in> drv_name ` set (csin_Drivers sample_csi_node)"
  by (simp add: sample_csi_node_def)

lemma sample_fits: "fits_node (sample_provisioner c m) sample_csi_node sample_node proxmox_class"
  by (simp add: fits_node_def proxmox_class_def sample_keys sample_topologies_ok sample_driver_there)

lemma sample_cache_ok: "cache_ok (sample_provisioner c m) [''missing'', ''proxmox'', ''hcloud-volumes'']"
  by (simp add: sample_classes_def proxmox_class_def hcloud_class_def sample_topologies_ok(1)
      valid_topologies_Nil)

text \<open>
  C16: the backing class is the first of the listed names, in their order, whose class exists and
  fits the node (allowed topologies under the driver's registered keys, CSI driver running there);
  names of no class are skipped, and without a fitting class the result is the error the code names.
\<close>

theorem getStorageClassFromNode_first:
  assumes "hp_csiNodeLister p (node_name n) = Inr (Some csi)" and "cache_ok p names"
  shows "getStorageClassFromNode p (Some n) names =
     Done (case first_eligible p csi n names of
             Some c \<Rightarrow> Inr c
           | None \<Rightarrow> Inl (Errorf ''no matching storage class found for selected node %q'' [node_name n]))"
  using assms class_loop_first by (simp add: getStorageClassFromNode_def)

theorem getStorageClassFromNode_first_witness:
  "getStorageClassFromNode (sample_provisioner sample_client ''auto'') (Some sample_node)
     [''missing'', ''proxmox'', ''hcloud-volumes''] = Done (Inr proxmox_class)"
proof -
  have "hp_csiNodeLister (sample_provisioner sample_client ''auto'') (node_name sample_node) = Inr (Some sample_csi_node)"
    by (simp add: sample_csi_nodes_def sample_node_def)
  from getStorageClassFromNode_first [OF this sample_cache_ok] show ?thesis
    by (simp add: first_eligible_def stored_class_def sample_classes_def sample_fits)
qed

text \<open>
  A class with allowed topologies is never chosen for a node on which its provisioner has not
  registered a CSI driver; a provisioner that is no CSI driver is chosen only without topologies.
\<close>

theorem restricted_class_needs_driver:
  assumes "getStorageClassFromNode p (Some n) names = Done (Inr class)"
    and "hp_csiNodeLister p (node_name n) = Inr (Some csi)" and "cache_ok p names"
    and "sc_AllowedTopologies class \<noteq> []"
  shows "sc_Provisioner class \<in> set (map drv_name (csin_Drivers csi))"
proof (rule ccontr)
  assume no: "\<not> ?thesis"
  from assms(1-3) class_loop_first [OF assms(3), of csi n]
  have "first_eligible p csi n names = Some class"
    by (auto simp: getStorageClassFromNode_def split: option.splits)
  then have "fits_node p csi n class"
    by (auto simp: first_eligible_def find_Some_first)
  with assms(4) have "node_allowed n (getTopologyKeys csi (sc_Provisioner class)) (sc_AllowedTopologies class)"
    by (simp add: fits_node_def)
  with find_driver_keys_none [OF no] node_allowed_no_keys show False
    by (simp add: getTopologyKeys_def)
qed

theorem restricted_class_needs_driver_witness:
  "sc_AllowedTopologies proxmox_class \<noteq> [] \<and>
   sc_Provisioner proxmox_class \<in> set (map drv_name (csin_Drivers sample_csi_node))"
proof -
  let ?p = "sample_provisioner sample_client ''auto''"
  have l: "hp_csiNodeLister ?p (node_name sample_node) = Inr (Some sample_csi_node)"
    by (simp add: sample_csi_nodes_def sample_node_def)
  have c: "getStorageClassFromNode ?p (Some sample_node) [''missing'', ''proxmox'', ''hcloud-volumes'']
      = Done (Inr proxmox_class)"
    using class_loop_first [OF sample_cache_ok, of sample_client "''auto''" sample_csi_node sample_node] l
    by (simp add: getStorageClassFromNode_def first_eligible_def stored_class_def sample_classes_def sample_fits)
  have t: "sc_AllowedTopologies proxmox_class \<noteq> []"
    by (simp add: proxmox_class_def sample_topologies_def)
  from restricted_class_needs_driver [OF c l sample_cache_ok t] t show ?thesis by simp
qed

text \<open>
  With a selected node and a cache that hands out no nil class, choosing a class never panics,
  whatever the classes' topologies and the node's labels are.
\<close>

theorem getStorageClassFromNode_no_panic:
  assumes "\<forall>name\<in>set names. hp_scLister p name \<noteq> Inr None"
  shows "getStorageClassFromNode p (Some n) names \<noteq> Panic m"
  using class_loop_no_panic [OF assms]
  by (auto simp: getStorageClassFromNode_def split: sum.split option.split) (metis run.distinct(1))

theorem getStorageClassFromNode_no_panic_witness:
  "getStorageClassFromNode (sample_provisioner sample_client ''pod'') (Some sample_node) [''proxmox'']
     \<noteq> Panic nil_panic"
  by (rule getStorageClassFromNode_no_panic) (simp add: sample_classes_def)

text \<open>
  \<^verbatim>\<open>NewProvisioner\<close> keeps a method it knows and replaces any other by \<open>auto\<close>, so the switch of
  \<^verbatim>\<open>Provision\<close> always finds its case; deletions are tried five times.
\<close>

theorem NewProvisioner_method:
  "hp_method (NewProvisioner c m ds cs ns nl) \<in> {''auto'', ''pod'', ''annotation''} \<and>
   (hp_method (NewProvisioner c m ds cs ns nl) = m \<longleftrightarrow> m \<in> {''auto'', ''pod'', ''annotation''}) \<and>
   nat (bo_Steps (hp_backoff (NewProvisioner c m ds cs ns nl))) = 5"
  by (auto simp: NewProvisioner_def methodDefault_def methodPod_def methodAnnotation_def
      defaultCreateProvisionedPVRetryCount_def)

end
