(* ===== verification/WatchLoop.thy ===== *)
theory WatchLoop
  imports Selection
begin

text \<open>
  Waiting on a watch: the two \<^verbatim>\<open>for { select { ... } }\<close> loops of the repository, in
  \<^verbatim>\<open>waitBindPVC\<close> and \<^verbatim>\<open>PVWaitDelete\<close>. Both share the contract of the locale \<open>event_loop\<close>:
  the first event they accept decides, otherwise the closed channel or the timer does.
  A run of the select is a finite value (\<^typ>\<open>'ev select_run\<close>), so both loops return.
\<close>

section \<open>The shared contract\<close>

definition channel_closed :: go_error where
  "channel_closed = Errorf ''watch channel closed unexpectedly'' []"

locale event_loop =
  fixes loop :: "'ev select_run \<Rightarrow> go_error + 'r"
    and accept :: "'ev \<Rightarrow> 'r option"
    and timed_out :: go_error
  assumes loop_Recv: "loop (Recv e r) = (case accept e of Some x \<Rightarrow> Inr x | None \<Rightarrow> loop r)"
    and loop_ChanClosed: "loop ChanClosed = Inl channel_closed"
    and loop_TimerFired: "loop TimerFired = Inl timed_out"
begin

lemma loop_eq:
  "loop r = (case List.map_filter accept (received r) of
      x # _ \<Rightarrow> Inr x
    | [] \<Rightarrow> Inl (if select_end r = ChanClosed then channel_closed else timed_out))"
  by (induction r) (auto simp: loop_Recv loop_ChanClosed loop_TimerFired split: option.splits)

lemma loop_first:
  "loop r = Inr x \<longleftrightarrow>
     (\<exists>es e fs. received r = es @ e # fs \<and> (\<forall>f\<in>set es. accept f = None) \<and> accept e = Some x)"
proof (induction r)
  case (Recv e r)
  show ?case
  proof (cases "accept e")
    case None
    with Recv show ?thesis
      by (auto simp: loop_Recv Cons_eq_append_conv) (metis set_ConsD)+
  next
    case (Some y)
    then have "loop (Recv e r) = Inr x \<longleftrightarrow> y = x" by (simp add: loop_Recv)
    moreover have "\<exists>es e' fs. received (Recv e r) = es @ e' # fs \<and> (\<forall>f\<in>set es. accept f = None) \<and> accept e' = Some x"
      if "y = x"
      using that Some by (intro exI [of _ "[]"] exI [of _ e] exI [of _ "received r"]) simp
    moreover have "y = x"
      if "received (Recv e r) = es @ e' # fs" "\<forall>f\<in>set es. accept f = None" "accept e' = Some x" for es e' fs
      using that Some by (cases es) auto
    ultimately show ?thesis by blast
  qed
qed (auto simp: loop_ChanClosed loop_TimerFired)

lemma loop_accepted: "loop r = Inr x \<Longrightarrow> \<exists>e\<in>set (received r). accept e = Some x"
  unfolding loop_first by auto

lemma loop_progress: "e \<in> set (received r) \<Longrightarrow> accept e \<noteq> None \<Longrightarrow> \<exists>x. loop r = Inr x"
  by (induction r) (auto simp: loop_Recv split: option.splits)

lemma loop_error:
  "loop r = Inl err \<longleftrightarrow>
     (\<forall>e\<in>set (received r). accept e = None) \<and>
     err = (if select_end r = ChanClosed then channel_closed else timed_out)"
  by (induction r) (auto simp: loop_Recv loop_ChanClosed loop_TimerFired split: option.splits)

end

text \<open>The field selector of both watches.\<close>

definition name_selector :: "string \<Rightarrow> string" where
  "name_selector name = ''metadata.name='' @ name"

section \<open>waitBindPVC\<close>

definition ClaimBound :: string where
  "ClaimBound = ''Bound''"

definition bind_timeout :: "string \<Rightarrow> go_error" where
  "bind_timeout name = Errorf ''timeout waiting for PersistentVolumeClaims %s to be boned'' [name]"

fun waitBind_loop :: "string \<Rightarrow> pvc watch_event select_run \<Rightarrow> go_error + pvc" where
  "waitBind_loop name (Recv event rest) =
     (if ev_Type event = Modified then
        (case ev_Object event of
           Some obj \<Rightarrow> if pvc_Phase obj = ClaimBound then Inr obj else waitBind_loop name rest
         | None \<Rightarrow> waitBind_loop name rest)
      else waitBind_loop name rest)"
| "waitBind_loop name ChanClosed = Inl channel_closed"
| "waitBind_loop name TimerFired = Inl (bind_timeout name)"

definition waitBindPVC :: "'e HybridProvisioner \<Rightarrow> pvc \<Rightarrow> ('e world, go_error + pvc) state" where
  "waitBindPVC p claim = do {
     r \<leftarrow> watch_pvc (hp_client p) (pvc_Namespace claim) (name_selector (pvc_Name claim));
     case r of
       Inl err \<Rightarrow> State_Monad.return (Inl (ApiErr err))
     | Inr events \<Rightarrow> State_Monad.return (waitBind_loop (pvc_Name claim) events)
   }"

text \<open>The events \<^verbatim>\<open>waitBindPVC\<close> accepts: a modification to a bound claim.\<close>

definition bind_accept :: "pvc watch_event \<Rightarrow> pvc option" where
  "bind_accept e =
     (case ev_Object e of
        Some obj \<Rightarrow> if ev_Type e = Modified \<and> pvc_Phase obj = ClaimBound then Some obj else None
      | None \<Rightarrow> None)"

interpretation binding: event_loop "waitBind_loop name" bind_accept "bind_timeout name" for name
  by unfold_locales (auto simp: bind_accept_def split: option.splits)

lemma bind_accept_Some:
  "bind_accept e = Some obj \<longleftrightarrow> ev_Type e = Modified \<and> ev_Object e = Some obj \<and> pvc_Phase obj = ClaimBound"
  by (auto simp: bind_accept_def split: option.splits)

lemma waitBind_bound: "waitBind_loop name r = Inr obj \<Longrightarrow> pvc_Phase obj = ClaimBound"
  by (auto simp: bind_accept_Some dest!: binding.loop_accepted)

section \<open>PVWaitDelete\<close>

definition delete_timeout :: "string \<Rightarrow> go_error" where
  "delete_timeout name = Errorf ''timeout waiting for PersistentVolume %s to be deleted'' [name]"

fun waitDelete_loop :: "string \<Rightarrow> pv watch_event select_run \<Rightarrow> go_error + unit" where
  "waitDelete_loop name (Recv event rest) =
     (if ev_Type event = Deleted then Inr () else waitDelete_loop name rest)"
| "waitDelete_loop name ChanClosed = Inl channel_closed"
| "waitDelete_loop name TimerFired = Inl (delete_timeout name)"

definition delete_accept :: "pv watch_event \<Rightarrow> unit option" where
  "delete_accept e = (if ev_Type e = Deleted then Some () else None)"

interpretation deletion: event_loop "waitDelete_loop name" delete_accept "delete_timeout name" for name
  by unfold_locales (auto simp: delete_accept_def)

definition PVWaitDelete :: "'e client \<Rightarrow> string \<Rightarrow> ('e world, go_error option) state" where
  "PVWaitDelete c pvName = do {
     r \<leftarrow> get_pv c pvName;
     case r of
       Inl err \<Rightarrow> State_Monad.return None
     | Inr _ \<Rightarrow> do {
         r \<leftarrow> watch_pv c (name_selector pvName);
         case r of
           Inl err \<Rightarrow> State_Monad.return (Some (ApiErr err))
         | Inr events \<Rightarrow>
             (case waitDelete_loop pvName events of
                Inl err \<Rightarrow> State_Monad.return (Some err)
              | Inr _ \<Rightarrow> State_Monad.return None)
       }
   }"

section \<open>Properties\<close>

text \<open>
  \<^verbatim>\<open>waitBindPVC\<close> returns a claim exactly when the watch delivers a modification to a bound
  claim, and then the first such claim.
\<close>

theorem waitBind_first_bound:
  "waitBind_loop name events = Inr obj \<longleftrightarrow>
     (\<exists>es e fs. received events = es @ e # fs \<and> (\<forall>f\<in>set es. bind_accept f = None) \<and>
        ev_Type e = Modified \<and> ev_Object e = Some obj \<and> pvc_Phase obj = ClaimBound)"
  unfolding binding.loop_first bind_accept_Some ..

theorem waitBind_first_bound_witness:
  "\<exists>es e fs. received sample_events = es @ e # fs \<and> (\<forall>f\<in>set es. bind_accept f = None) \<and>
     ev_Type e = Modified \<and> ev_Object e = Some sample_claim \<and> pvc_Phase sample_claim = ClaimBound"
proof -
  have "waitBind_loop ''pvc-1'' sample_events = Inr sample_claim"
    by (simp add: sample_events_def sample_claim_def ClaimBound_def)
  with waitBind_first_bound show ?thesis by blast
qed

text \<open>
  Only modifications count: when the claim is bound before the watch starts, the watch reports
  it as an added object, and the wait ends in its error whatever the phase of that claim is.
\<close>

theorem waitBind_misses_bound_claim:
  assumes "\<forall>e\<in>set (received events). ev_Type e \<noteq> Modified"
  shows "waitBind_loop name events =
     Inl (if select_end events = ChanClosed then channel_closed else bind_timeout name)"
  using assms by (subst binding.loop_error) (auto simp: bind_accept_def split: option.split)

theorem waitBind_misses_bound_claim_witness:
  "pvc_Phase sample_claim = ClaimBound \<and>
   waitBind_loop ''pvc-1'' (Recv \<lparr>ev_Type = Added, ev_Object = Some sample_claim\<rparr> TimerFired)
     = Inl (bind_timeout ''pvc-1'')"
  using waitBind_misses_bound_claim [of "Recv \<lparr>ev_Type = Added, ev_Object = Some sample_claim\<rparr> TimerFired" "''pvc-1''"]
  by (simp add: sample_claim_def ClaimBound_def)

text \<open>
  \<^verbatim>\<open>PVWaitDelete\<close> reports success exactly when reading the volume fails (with any error) or the
  watch delivers a deletion before it ends.
\<close>

theorem PVWaitDelete_result:
  "fst (run_state (PVWaitDelete c name) w) = None \<longleftrightarrow>
     (case fst (cl_GetPV c name (env w)) of
        Inl err \<Rightarrow> True
      | Inr v \<Rightarrow>
          (case fst (cl_WatchPV c (name_selector name) (snd (cl_GetPV c name (env w)))) of
             Inl err \<Rightarrow> False
           | Inr events \<Rightarrow> list_ex (\<lambda>e. ev_Type e = Deleted) (received events)))"
proof -
  have "(\<exists>u. waitDelete_loop name events = Inr u) \<longleftrightarrow> list_ex (\<lambda>e. ev_Type e = Deleted) (received events)" for events
    by (induction events) auto
  then show ?thesis
    by (auto simp: PVWaitDelete_def get_pv_def watch_pv_def split: sum.splits) (metis sum.distinct(1))
qed

end
