(* ===== verification/Provisioning.thy ===== *)
theory Provisioning
  imports WatchLoop
begin

text \<open>
  The provisioning operations of \<^verbatim>\<open>pkg/provisioner/provisioner.go\<close>, statement by statement: each
  call of \<^verbatim>\<open>client-go\<close> is a \<open>perform\<close> of the parameter client, each early return a branch. Log
  output and the variables kept for it (\<^verbatim>\<open>lastSaveError\<close>) are left out.
\<close>

section \<open>Constants and options\<close>

definition annBetaStorageProvisioner :: string where
  "annBetaStorageProvisioner = ''volume.beta.kubernetes.io/storage-provisioner''"

definition annStorageProvisioner :: string where
  "annStorageProvisioner = ''volume.kubernetes.io/storage-provisioner''"

definition annSelectedNode :: string where
  "annSelectedNode = ''volume.kubernetes.io/selected-node''"

text \<open>Constants of \<^verbatim>\<open>k8s.io/api\<close> and \<^verbatim>\<open>k8s.io/component-helpers\<close> the code names.\<close>

definition AnnBindCompleted :: string where
  "AnnBindCompleted = ''pv.kubernetes.io/bind-completed''"

definition AnnBoundByController :: string where
  "AnnBoundByController = ''pv.kubernetes.io/bound-by-controller''"

definition PersistentVolumeReclaimDelete :: string where
  "PersistentVolumeReclaimDelete = ''Delete''"

definition PersistentVolumeReclaimRetain :: string where
  "PersistentVolumeReclaimRetain = ''Retain''"

definition LabelHostname :: string where
  "LabelHostname = ''kubernetes.io/hostname''"

record ProvisionOptions =
  opt_StorageClass :: "storage_class option"
  opt_PVName :: string
  opt_PVC :: pvc
  opt_SelectedNode :: "node option"

datatype provisioning_state =
  ProvisioningFinished | ProvisioningInBackground | ProvisioningNoChange | ProvisioningReschedule

text \<open>The three results of \<^verbatim>\<open>Provision\<close>, or a panic on the way.\<close>

datatype provision_result =
  ProvisionPanic string
| Provisioned "pv option" provisioning_state "go_error option"

section \<open>Patch bodies\<close>

definition retain_patch :: patch_body where
  \<open>retain_patch =
     Raw (''{"spec":{"persistentVolumeReclaimPolicy":"'' @ PersistentVolumeReclaimRetain @ ''"}}'')\<close>

definition unclaim_patch :: patch_body where
  \<open>unclaim_patch = Raw ''{"spec":{"claimRef":null}}''\<close>

definition pvc_protection :: string where
  "pvc_protection = ''kubernetes.io/pvc-protection''"

fun keep_finalizers :: "string list \<Rightarrow> string list" where
  "keep_finalizers [] = []"
| "keep_finalizers (f # fs) =
     (if f \<noteq> pvc_protection then f # keep_finalizers fs else keep_finalizers fs)"

definition finalizers_patch :: "string list \<Rightarrow> patch_body" where
  \<open>finalizers_patch finalizers =
     (let newFinalizers = keep_finalizers finalizers
      in if length newFinalizers > 0
         then Raw (''{"metadata": {"finalizers": ["'' @ strings_Join newFinalizers ''", "'' @ ''"]}}'')
         else Raw ''{"metadata":{"finalizers":null}}'')\<close>

text \<open>A line break of the raw string literal, followed by its indentation.\<close>

definition nl :: "nat \<Rightarrow> string" where
  "nl n = CHR 0x0A # replicate n (CHR 0x09)"

definition claim_ref_patch :: "pvc \<Rightarrow> patch_body" where
  \<open>claim_ref_patch claim = Raw (
     ''{'' @ nl 4 @ ''"spec":'' @ nl 4 @ ''{'' @
     nl 5 @ ''"persistentVolumeReclaimPolicy":"'' @ PersistentVolumeReclaimDelete @ ''",'' @
     nl 5 @ ''"claimRef":'' @ nl 5 @ ''{'' @
     nl 6 @ ''"apiVersion":"'' @ pvc_APIVersion claim @ ''",'' @
     nl 6 @ ''"kind":"'' @ pvc_Kind claim @ ''",'' @
     nl 6 @ ''"name":"'' @ pvc_Name claim @ ''",'' @
     nl 6 @ ''"namespace":"'' @ pvc_Namespace claim @ ''",'' @
     nl 6 @ ''"uid":"'' @ pvc_UID claim @ ''"'' @
     nl 5 @ ''}'' @ nl 4 @ ''}'' @ nl 3 @ ''}'')\<close>

definition bond_patch :: "storage_class \<Rightarrow> string \<Rightarrow> patch_body" where
  "bond_patch storageClass pvName = Marshalled (zero_pvc\<lparr>
     pvc_Annotations :=
       [annStorageProvisioner \<mapsto> sc_Provisioner storageClass,
        annBetaStorageProvisioner \<mapsto> sc_Provisioner storageClass,
        AnnBindCompleted \<mapsto> ''yes'',
        AnnBoundByController \<mapsto> ''yes''],
     pvc_VolumeName := pvName\<rparr>)"

section \<open>releasePV\<close>

definition failed :: "string \<Rightarrow> api_error \<Rightarrow> go_error" where
  "failed msg err = Wrapf msg [] (ApiErr err)"

text \<open>The condition of the back-off: one attempt to delete the claim.\<close>

definition try_delete_pvc :: "'e HybridProvisioner \<Rightarrow> pvc \<Rightarrow> ('e world, go_error + bool) state" where
  "try_delete_pvc p claim = do {
     err \<leftarrow> delete_pvc (hp_client p) (pvc_Namespace claim) (pvc_Name claim) (Some ''Foreground'');
     case err of
       Some e \<Rightarrow> State_Monad.return (Inr False)
     | None \<Rightarrow> State_Monad.return (Inr True)
   }"

definition releasePV :: "'e HybridProvisioner \<Rightarrow> pvc \<Rightarrow> ('e world, go_error + pv) state" where
  "releasePV p claim = do {
     r \<leftarrow> patch_pv (hp_client p) (pvc_VolumeName claim) retain_patch;
     case r of
       Inl err \<Rightarrow> State_Monad.return (Inl (failed ''failed to patch persistentvolume: %v'' err))
     | Inr _ \<Rightarrow> do {
         r \<leftarrow> patch_pvc (hp_client p) (pvc_Namespace claim) (pvc_Name claim)
               (finalizers_patch (pvc_Finalizers claim));
         case r of
           Inl err \<Rightarrow> State_Monad.return
             (Inl (failed ''failed to remove finalizer from persistentvolumeClaim: %v'' err))
         | Inr _ \<Rightarrow> do {
             r \<leftarrow> cl_ExponentialBackoff (hp_client p) (hp_backoff p) (try_delete_pvc p claim);
             case r of
               Inl err \<Rightarrow> State_Monad.return (Inl err)
             | Inr _ \<Rightarrow> do {
                 r \<leftarrow> patch_pv (hp_client p) (pvc_VolumeName claim) unclaim_patch;
                 case r of
                   Inl err \<Rightarrow> State_Monad.return (Inl (failed ''failed to patch persistentvolume: %v'' err))
                 | Inr v \<Rightarrow> State_Monad.return (Inr v)
               }
           }
       }
   }"

section \<open>bondPVC\<close>

definition bondPVC ::
  "'e HybridProvisioner \<Rightarrow> ProvisionOptions \<Rightarrow> string \<Rightarrow> storage_class \<Rightarrow> ('e world, go_error option) state" where
  "bondPVC p opts pvName storageClass = do {
     r \<leftarrow> patch_pvc (hp_client p) (pvc_Namespace (opt_PVC opts)) (pvc_Name (opt_PVC opts))
           (bond_patch storageClass pvName);
     case r of
       Inl err \<Rightarrow> State_Monad.return (Some (failed ''failed to patch PersistentVolumeClaims: %v'' err))
     | Inr _ \<Rightarrow>
         if sc_ReclaimPolicy storageClass = Some PersistentVolumeReclaimDelete then do {
           r \<leftarrow> patch_pv (hp_client p) pvName (claim_ref_patch (opt_PVC opts));
           case r of
             Inl err \<Rightarrow> State_Monad.return (Some (failed ''failed to patch PersistentVolume: %v'' err))
           | Inr _ \<Rightarrow> State_Monad.return None
         }
         else State_Monad.return None
   }"

section \<open>createPVbyAnnotation and createPVbyPOD\<close>

text \<open>The claim both methods request from the backing class; only the first annotates it.\<close>

definition requested_pvc :: "ProvisionOptions \<Rightarrow> storage_class \<Rightarrow> pvc" where
  "requested_pvc opts storageClass = zero_pvc\<lparr>
     pvc_Name := opt_PVName opts,
     pvc_Namespace := pvc_Namespace (opt_PVC opts),
     pvc_AccessModes := pvc_AccessModes (opt_PVC opts),
     pvc_StorageClassName := Some (sc_Name storageClass),
     pvc_Resources := pvc_Resources (opt_PVC opts),
     pvc_VolumeMode := pvc_VolumeMode (opt_PVC opts)\<rparr>"

definition annotated_pvc :: "ProvisionOptions \<Rightarrow> storage_class \<Rightarrow> node \<Rightarrow> pvc" where
  "annotated_pvc opts storageClass n = (requested_pvc opts storageClass)\<lparr>
     pvc_Annotations :=
       [annStorageProvisioner \<mapsto> sc_Provisioner storageClass,
        annBetaStorageProvisioner \<mapsto> sc_Provisioner storageClass,
        annSelectedNode \<mapsto> node_name n]\<rparr>"

text \<open>Both methods start by creating the claim unless the cache has it.\<close>

definition ensure_pvc :: "'e HybridProvisioner \<Rightarrow> pvc \<Rightarrow> ('e world, go_error option) state" where
  "ensure_pvc p pvcreq = do {
     r \<leftarrow> lister_get_pvc (hp_client p) (pvc_Namespace pvcreq) (pvc_Name pvcreq);
     case r of
       Inr _ \<Rightarrow> State_Monad.return None
     | Inl err \<Rightarrow>
         if \<not> IsNotFound err
         then State_Monad.return (Some (failed ''failed to get persistentvolumeclaim: %v'' err))
         else do {
           r \<leftarrow> create_pvc (hp_client p) (pvc_Namespace pvcreq) pvcreq;
           case r of
             Inl err \<Rightarrow> State_Monad.return (Some (failed ''failed to create persistentvolumeclaim: %v'' err))
           | Inr _ \<Rightarrow> State_Monad.return None
         }
   }"

text \<open>Both methods end by releasing the volume and bonding it to the user's claim.\<close>

definition release_and_bond ::
  "'e HybridProvisioner \<Rightarrow> ProvisionOptions \<Rightarrow> storage_class \<Rightarrow> pvc \<Rightarrow> ('e world, go_error + pv) state" where
  "release_and_bond p opts storageClass claim = do {
     r \<leftarrow> releasePV p claim;
     case r of
       Inl err \<Rightarrow> State_Monad.return (Inl err)
     | Inr v \<Rightarrow> do {
         err \<leftarrow> bondPVC p opts (pv_Name v) storageClass;
         case err of
           Some e \<Rightarrow> State_Monad.return (Inl e)
         | None \<Rightarrow> State_Monad.return (Inr v)
       }
   }"

definition createPVbyAnnotation ::
  "'e HybridProvisioner \<Rightarrow> ProvisionOptions \<Rightarrow> storage_class \<Rightarrow> ('e world, (go_error + pv) run) state" where
  "createPVbyAnnotation p opts storageClass =
     (case opt_SelectedNode opts of
        None \<Rightarrow> State_Monad.return (Panic nil_panic)
      | Some n \<Rightarrow> do {
          let pvcreq = annotated_pvc opts storageClass n;
          err \<leftarrow> ensure_pvc p pvcreq;
          case err of
            Some e \<Rightarrow> State_Monad.return (Done (Inl e))
          | None \<Rightarrow> do {
              r \<leftarrow> waitBindPVC p pvcreq;
              case r of
                Inl err \<Rightarrow> State_Monad.return (Done (Inl err))
              | Inr claim \<Rightarrow> do {
                  r \<leftarrow> release_and_bond p opts storageClass claim;
                  State_Monad.return (Done r)
                }
            }
        })"

definition pod_resources :: "string \<rightharpoonup> string" where
  "pod_resources = [''cpu'' \<mapsto> ''10m'', ''memory'' \<mapsto> ''10Mi'']"

definition provisioner_pod :: "ProvisionOptions \<Rightarrow> pvc \<Rightarrow> node \<Rightarrow> pod" where
  "provisioner_pod opts pvcreq n = zero_pod\<lparr>
     pod_Name := ''provisioner-'' @ opt_PVName opts,
     pod_Namespace := pvc_Namespace pvcreq,
     pod_RestartPolicy := ''Never'',
     pod_Containers :=
       [\<lparr>ctr_Name = ''provisioner'', ctr_Image = ''registry.k8s.io/pause:3.10'',
         ctr_Resources = \<lparr>res_Requests = pod_resources, res_Limits = pod_resources\<rparr>\<rparr>],
     pod_Tolerations := [\<lparr>tol_Key = [], tol_Operator = ''Exists''\<rparr>],
     pod_NodeSelector := [LabelHostname \<mapsto> node_name n],
     pod_Volumes := [\<lparr>vol_Name = ''provisioner'', vol_ClaimName = Some (pvc_Name pvcreq)\<rparr>]\<rparr>"

text \<open>The condition of the back-off: one attempt to delete the pod.\<close>

definition try_delete_pod :: "'e HybridProvisioner \<Rightarrow> pod \<Rightarrow> ('e world, go_error + bool) state" where
  "try_delete_pod p x = do {
     err \<leftarrow> delete_pod (hp_client p) (pod_Namespace x) (pod_Name x);
     case err of
       None \<Rightarrow> State_Monad.return (Inr True)
     | Some e \<Rightarrow> State_Monad.return (Inr (IsNotFound e))
   }"

text \<open>
  \<^verbatim>\<open>pod, err = Create(...)\<close> overwrites the pod with what the client returns, on an error too; the
  deletion uses that value.
\<close>

definition createPVbyPOD ::
  "'e HybridProvisioner \<Rightarrow> ProvisionOptions \<Rightarrow> storage_class \<Rightarrow> ('e world, (go_error + pv) run) state" where
  "createPVbyPOD p opts storageClass = do {
     let pvcreq = requested_pvc opts storageClass;
     err \<leftarrow> ensure_pvc p pvcreq;
     case err of
       Some e \<Rightarrow> State_Monad.return (Done (Inl e))
     | None \<Rightarrow>
         (case opt_SelectedNode opts of
            None \<Rightarrow> State_Monad.return (Panic nil_panic)
          | Some n \<Rightarrow> do {
              (created, err) \<leftarrow> create_pod (hp_client p) (pvc_Namespace pvcreq) (provisioner_pod opts pvcreq n);
              case (case err of None \<Rightarrow> None | Some e \<Rightarrow> if \<not> IsAlreadyExists e then Some e else None) of
                Some e \<Rightarrow> State_Monad.return (Done (Inl (ApiErr e)))
              | None \<Rightarrow> do {
                  r \<leftarrow> waitBindPVC p pvcreq;
                  case r of
                    Inl err \<Rightarrow> State_Monad.return (Done (Inl err))
                  | Inr claim \<Rightarrow> do {
                      r \<leftarrow> cl_ExponentialBackoff (hp_client p) (hp_backoff p) (try_delete_pod p created);
                      case r of
                        Inl err \<Rightarrow> State_Monad.return (Done (Inl err))
                      | Inr _ \<Rightarrow> do {
                          r \<leftarrow> release_and_bond p opts storageClass claim;
                          State_Monad.return (Done r)
                        }
                    }
                }
            })
   }"

section \<open>Provision and Delete\<close>

text \<open>The end of \<^verbatim>\<open>Provision\<close>: an error is final, a volume loses its resource version.\<close>

definition provision_result_of :: "(go_error + pv) run \<Rightarrow> provision_result" where
  "provision_result_of r =
     (case r of
        Panic m \<Rightarrow> ProvisionPanic m
      | Done (Inl err) \<Rightarrow> Provisioned None ProvisioningFinished (Some err)
      | Done (Inr v) \<Rightarrow> Provisioned (Some (v\<lparr>pv_ResourceVersion := []\<rparr>)) ProvisioningFinished None)"

definition Provision ::
  "'e HybridProvisioner \<Rightarrow> ProvisionOptions \<Rightarrow> ('e world, provision_result) state" where
  "Provision p opts =
     (case opt_StorageClass opts of
        None \<Rightarrow> State_Monad.return
          (Provisioned None ProvisioningFinished (Some (Errorf ''storageClass is required'' [])))
      | Some sc \<Rightarrow>
          (case sc_Parameters sc ''storageClasses'' of
             None \<Rightarrow> State_Monad.return
               (Provisioned None ProvisioningFinished (Some (Errorf ''storageClasses parameter is required'' [])))
           | Some classes \<Rightarrow>
               (case getStorageClassFromNode p (opt_SelectedNode opts) (strings_Split classes CHR '','') of
                  Panic m \<Rightarrow> State_Monad.return (ProvisionPanic m)
                | Done (Inl err) \<Rightarrow> State_Monad.return (Provisioned None ProvisioningReschedule (Some err))
                | Done (Inr storageClass) \<Rightarrow>
                    if hp_method p = ''auto'' \<or> hp_method p = ''annotation'' then do {
                      r \<leftarrow> createPVbyAnnotation p opts storageClass;
                      State_Monad.return (provision_result_of r)
                    }
                    else if hp_method p = ''pod'' then do {
                      r \<leftarrow> createPVbyPOD p opts storageClass;
                      State_Monad.return (provision_result_of r)
                    }
                    else State_Monad.return (ProvisionPanic nil_panic))))"

definition Delete :: "'e HybridProvisioner \<Rightarrow> pv \<Rightarrow> ('e world, go_error option) state" where
  "Delete p v = State_Monad.return None"

end
