(* ===== verification/Protocol.thy ===== *)
theory Protocol
  imports Provisioning
begin

text \<open>
  The provisioning protocol, stated apart from the code: the phases a volume goes through from the
  request of a backing claim to a volume bonded to the user's claim, and the calls that lead from
  one phase to the next. The safety facts of the protocol are invariants of its reachable phases,
  by rule induction; that the code follows the protocol is proved in the theory \<open>Refinement\<close>.
\<close>

section \<open>Phases and steps\<close>

datatype creation_method = ByAnnotation | ByPod

record proto =
  pr_method :: creation_method
  pr_opts :: ProvisionOptions
  pr_class :: storage_class
  pr_node :: node

text \<open>The backing claim the method requests, and where it lives.\<close>

definition wanted_claim :: "proto \<Rightarrow> pvc" where
  "wanted_claim x =
     (case pr_method x of
        ByAnnotation \<Rightarrow> annotated_pvc (pr_opts x) (pr_class x) (pr_node x)
      | ByPod \<Rightarrow> requested_pvc (pr_opts x) (pr_class x))"

definition wanted_ns :: "proto \<Rightarrow> string" where
  "wanted_ns x = pvc_Namespace (opt_PVC (pr_opts x))"

definition wanted_name :: "proto \<Rightarrow> string" where
  "wanted_name x = opt_PVName (pr_opts x)"

definition wanted_pod :: "proto \<Rightarrow> pod" where
  "wanted_pod x = provisioner_pod (pr_opts x) (wanted_claim x) (pr_node x)"

lemma wanted_claim_simps [simp]:
  "pvc_Name (wanted_claim x) = wanted_name x"
  "pvc_Namespace (wanted_claim x) = wanted_ns x"
  by (cases "pr_method x";
      simp add: wanted_claim_def annotated_pvc_def requested_pvc_def wanted_name_def wanted_ns_def)+

datatype phase =
    Start \<comment> \<open>nothing asked yet\<close>
  | Absent \<comment> \<open>the backing claim is not in the cache\<close>
  | Requested \<comment> \<open>the backing claim exists\<close>
  | PodPlaced pod \<comment> \<open>the pod that uses the claim is created\<close>
  | Mounted pod pvc \<comment> \<open>the claim is bound, the pod still there\<close>
  | Claimed pvc \<comment> \<open>the claim is bound and no pod of ours uses it\<close>
  | Retained pvc \<comment> \<open>its volume has the reclaim policy Retain\<close>
  | Unprotected pvc \<comment> \<open>the claim has lost the protection finalizer\<close>
  | ClaimGone pvc \<comment> \<open>the claim is deleted\<close>
  | Freed pvc pv \<comment> \<open>the volume has lost its claim reference\<close>
  | Bonded pvc pv \<comment> \<open>the user's claim names the volume\<close>
  | Settled pvc pv \<comment> \<open>the volume refers to the user's claim and is reclaimed by Delete\<close>
  | Stopped phase \<comment> \<open>given up in a phase\<close>

definition deletes_volume :: "proto \<Rightarrow> bool" where
  "deletes_volume x \<longleftrightarrow> sc_ReclaimPolicy (pr_class x) = Some PersistentVolumeReclaimDelete"

text \<open>After the claim is bound, the pod method still has its pod to remove.\<close>

fun bound_phase :: "phase \<Rightarrow> pvc \<Rightarrow> phase" where
  "bound_phase (PodPlaced q) claim = Mounted q claim"
| "bound_phase _ claim = Claimed claim"

text \<open>The phases in which the method waits for the claim to be bound.\<close>

fun waiting :: "proto \<Rightarrow> phase \<Rightarrow> bool" where
  "waiting x Requested = (pr_method x = ByAnnotation)"
| "waiting x (PodPlaced q) = (pr_method x = ByPod)"
| "waiting x _ = False"

inductive proto_step :: "proto \<Rightarrow> phase \<Rightarrow> call \<Rightarrow> phase \<Rightarrow> bool" for x where
  cached: "proto_step x Start (ListerGetPVC (wanted_ns x) (wanted_name x) (Inr c)) Requested"
| absent: "IsNotFound e \<Longrightarrow>
     proto_step x Start (ListerGetPVC (wanted_ns x) (wanted_name x) (Inl e)) Absent"
| cache_error: "\<not> IsNotFound e \<Longrightarrow>
     proto_step x Start (ListerGetPVC (wanted_ns x) (wanted_name x) (Inl e)) (Stopped Start)"
| created: "proto_step x Absent (CreatePVC (wanted_ns x) (wanted_claim x) (Inr c)) Requested"
| create_error: "proto_step x Absent (CreatePVC (wanted_ns x) (wanted_claim x) (Inl e)) (Stopped Absent)"
| pod_created: "pr_method x = ByPod \<Longrightarrow> err = None \<or> (\<exists>e. err = Some e \<and> IsAlreadyExists e) \<Longrightarrow>
     proto_step x Requested (CreatePod (wanted_ns x) (wanted_pod x) (q, err)) (PodPlaced q)"
| pod_error: "pr_method x = ByPod \<Longrightarrow> \<not> IsAlreadyExists e \<Longrightarrow>
     proto_step x Requested (CreatePod (wanted_ns x) (wanted_pod x) (q, Some e)) (Stopped Requested)"
| bound: "waiting x ph \<Longrightarrow> waitBind_loop (wanted_name x) events = Inr claim \<Longrightarrow>
     proto_step x ph (WatchPVC (wanted_ns x) (name_selector (wanted_name x)) (Inr events))
       (bound_phase ph claim)"
| not_bound: "waiting x ph \<Longrightarrow> waitBind_loop (wanted_name x) events = Inl err \<Longrightarrow>
     proto_step x ph (WatchPVC (wanted_ns x) (name_selector (wanted_name x)) (Inr events)) (Stopped ph)"
| watch_error: "waiting x ph \<Longrightarrow>
     proto_step x ph (WatchPVC (wanted_ns x) (name_selector (wanted_name x)) (Inl e)) (Stopped ph)"
| pod_removed: "err = None \<or> (\<exists>e. err = Some e \<and> IsNotFound e) \<Longrightarrow>
     proto_step x (Mounted q claim) (DeletePod (pod_Namespace q) (pod_Name q) err) (Claimed claim)"
| pod_stays: "\<not> IsNotFound e \<Longrightarrow>
     proto_step x (Mounted q claim) (DeletePod (pod_Namespace q) (pod_Name q) (Some e)) (Mounted q claim)"
| retain: "proto_step x (Claimed claim) (PatchPV (pvc_VolumeName claim) retain_patch (Inr v)) (Retained claim)"
| retain_error: "proto_step x (Claimed claim) (PatchPV (pvc_VolumeName claim) retain_patch (Inl e))
     (Stopped (Claimed claim))"
| unprotect: "proto_step x (Retained claim)
     (PatchPVC (pvc_Namespace claim) (pvc_Name claim) (finalizers_patch (pvc_Finalizers claim)) (Inr c))
     (Unprotected claim)"
| unprotect_error: "proto_step x (Retained claim)
     (PatchPVC (pvc_Namespace claim) (pvc_Name claim) (finalizers_patch (pvc_Finalizers claim)) (Inl e))
     (Stopped (Retained claim))"
| delete_claim: "proto_step x (Unprotected claim)
     (DeletePVC (pvc_Namespace claim) (pvc_Name claim) (Some ''Foreground'') None) (ClaimGone claim)"
| claim_stays: "proto_step x (Unprotected claim)
     (DeletePVC (pvc_Namespace claim) (pvc_Name claim) (Some ''Foreground'') (Some e)) (Unprotected claim)"
| free: "proto_step x (ClaimGone claim) (PatchPV (pvc_VolumeName claim) unclaim_patch (Inr v)) (Freed claim v)"
| free_error: "proto_step x (ClaimGone claim) (PatchPV (pvc_VolumeName claim) unclaim_patch (Inl e))
     (Stopped (ClaimGone claim))"
| bond: "proto_step x (Freed claim v)
     (PatchPVC (wanted_ns x) (pvc_Name (opt_PVC (pr_opts x))) (bond_patch (pr_class x) (pv_Name v)) (Inr c))
     (Bonded claim v)"
| bond_error: "proto_step x (Freed claim v)
     (PatchPVC (wanted_ns x) (pvc_Name (opt_PVC (pr_opts x))) (bond_patch (pr_class x) (pv_Name v)) (Inl e))
     (Stopped (Freed claim v))"
| settle: "deletes_volume x \<Longrightarrow>
     proto_step x (Bonded claim v) (PatchPV (pv_Name v) (claim_ref_patch (opt_PVC (pr_opts x))) (Inr v'))
     (Settled claim v)"
| settle_error: "deletes_volume x \<Longrightarrow>
     proto_step x (Bonded claim v) (PatchPV (pv_Name v) (claim_ref_patch (opt_PVC (pr_opts x))) (Inl e))
     (Stopped (Bonded claim v))"

text \<open>A log leads from the start to a phase.\<close>

inductive proto_reach :: "proto \<Rightarrow> call list \<Rightarrow> phase \<Rightarrow> bool" for x where
  reach_start: "proto_reach x [] Start"
| reach_step: "proto_reach x tr ph \<Longrightarrow> proto_step x ph c ph' \<Longrightarrow> proto_reach x (tr @ [c]) ph'"

inductive_cases step_from_Stopped: "proto_step x (Stopped ph) c ph'"
inductive_cases step_from_Settled: "proto_step x (Settled claim v) c ph'"
inductive_cases step_DeletePVC: "proto_step x ph (DeletePVC ns name pol r) ph'"
inductive_cases step_PatchPV: "proto_step x ph (PatchPV name b r) ph'"
inductive_cases step_PatchPVC: "proto_step x ph (PatchPVC ns name b r) ph'"
inductive_cases step_DeletePod: "proto_step x ph (DeletePod ns name r) ph'"

lemma proto_step_deterministic: "proto_step x ph c ph1 \<Longrightarrow> proto_step x ph c ph2 \<Longrightarrow> ph1 = ph2"
  by (induction rule: proto_step.induct) (auto elim!: proto_step.cases)

section \<open>Invariants of the protocol\<close>

text \<open>The bound claim of a phase, and how far its volume has come.\<close>

fun phase_claim :: "phase \<Rightarrow> pvc option" where
  "phase_claim (Mounted q claim) = Some claim"
| "phase_claim (Claimed claim) = Some claim"
| "phase_claim (Retained claim) = Some claim"
| "phase_claim (Unprotected claim) = Some claim"
| "phase_claim (ClaimGone claim) = Some claim"
| "phase_claim (Freed claim v) = Some claim"
| "phase_claim (Bonded claim v) = Some claim"
| "phase_claim (Settled claim v) = Some claim"
| "phase_claim (Stopped ph) = phase_claim ph"
| "phase_claim _ = None"

fun progress :: "phase \<Rightarrow> nat" where
  "progress (Retained _) = 1"
| "progress (Unprotected _) = 2"
| "progress (ClaimGone _) = 3"
| "progress (Freed _ _) = 4"
| "progress (Bonded _ _) = 5"
| "progress (Settled _ _) = 6"
| "progress (Stopped ph) = progress ph"
| "progress _ = 0"

fun phase_volume :: "phase \<Rightarrow> pv option" where
  "phase_volume (Freed claim v) = Some v"
| "phase_volume (Bonded claim v) = Some v"
| "phase_volume (Settled claim v) = Some v"
| "phase_volume (Stopped ph) = phase_volume ph"
| "phase_volume _ = None"

text \<open>The two questions that are asked again when they are refused.\<close>

fun asks_claim :: "call \<Rightarrow> bool" where
  "asks_claim (DeletePVC ns name pol r) = True"
| "asks_claim _ = False"

fun asks_pod :: "call \<Rightarrow> bool" where
  "asks_pod (DeletePod ns name r) = True"
| "asks_pod _ = False"

text \<open>When the claim is bound nothing was done to its volume yet.\<close>

lemma bound_phase_fresh [simp]:
  "phase_claim (bound_phase ph claim) = Some claim" "progress (bound_phase ph claim) = 0"
  "phase_volume (bound_phase ph claim) = None" "bound_phase ph claim \<noteq> Settled c v" "Settled c v \<noteq> bound_phase ph claim"
  by (cases ph; simp)+

text \<open>What the log of a run that reached a phase holds.\<close>

definition log_inv :: "proto \<Rightarrow> call list \<Rightarrow> phase \<Rightarrow> bool" where
  "log_inv x tr ph \<longleftrightarrow>
     (\<forall>claim. phase_claim ph = Some claim \<longrightarrow>
        (\<exists>events. WatchPVC (wanted_ns x) (name_selector (wanted_name x)) (Inr events) \<in> set tr \<and>
                  waitBind_loop (wanted_name x) events = Inr claim) \<and>
        (1 \<le> progress ph \<longrightarrow> (\<exists>v. PatchPV (pvc_VolumeName claim) retain_patch (Inr v) \<in> set tr)) \<and>
        (2 \<le> progress ph \<longrightarrow> (\<exists>c. PatchPVC (pvc_Namespace claim) (pvc_Name claim)
             (finalizers_patch (pvc_Finalizers claim)) (Inr c) \<in> set tr)) \<and>
        (3 \<le> progress ph \<longrightarrow>
           DeletePVC (pvc_Namespace claim) (pvc_Name claim) (Some ''Foreground'') None \<in> set tr) \<and>
        (4 \<le> progress ph \<longrightarrow> (\<exists>v. phase_volume ph = Some v \<and>
           PatchPV (pvc_VolumeName claim) unclaim_patch (Inr v) \<in> set tr)) \<and>
        (5 \<le> progress ph \<longrightarrow> (\<exists>v c. phase_volume ph = Some v \<and>
           PatchPVC (wanted_ns x) (pvc_Name (opt_PVC (pr_opts x)))
             (bond_patch (pr_class x) (pv_Name v)) (Inr c) \<in> set tr)) \<and>
        (6 \<le> progress ph \<longrightarrow> (\<exists>v v'. phase_volume ph = Some v \<and>
           PatchPV (pv_Name v) (claim_ref_patch (opt_PVC (pr_opts x))) (Inr v') \<in> set tr)))"

lemma log_inv_reach: "proto_reach x tr ph \<Longrightarrow> log_inv x tr ph"
proof (induction rule: proto_reach.induct)
  case reach_start
  then show ?case by (simp add: log_inv_def)
next
  case (reach_step tr ph c ph')
  from reach_step.hyps(2) reach_step.IH show ?case
    by (cases rule: proto_step.cases; cases ph) (auto simp: log_inv_def)
qed

text \<open>Every call of a run was made from a phase reached by the calls before it.\<close>

lemma reach_split:
  "proto_reach x (a @ c # b) ph \<Longrightarrow> \<exists>ph1 ph2. proto_reach x a ph1 \<and> proto_step x ph1 c ph2"
proof (induction "a @ c # b" ph arbitrary: b rule: proto_reach.induct)
  case reach_start
  then show ?case by simp
next
  case (reach_step tr ph d ph')
  show ?case
  proof (cases b rule: rev_cases)
    case Nil
    with reach_step show ?thesis by auto
  next
    case (snoc b' d')
    with reach_step.hyps(4) have "tr = a @ c # b'" by simp
    with reach_step.hyps(2) show ?thesis by blast
  qed
qed

text \<open>The claim a run waited for, as the watch delivered it.\<close>

definition bound_by_watch :: "proto \<Rightarrow> call list \<Rightarrow> pvc \<Rightarrow> bool" where
  "bound_by_watch x tr claim \<longleftrightarrow>
     (\<exists>events. WatchPVC (wanted_ns x) (name_selector (wanted_name x)) (Inr events) \<in> set tr \<and>
               waitBind_loop (wanted_name x) events = Inr claim)"

text \<open>A claim is deleted only after its volume was set to be retained and it was bound.\<close>

lemma delete_after_retain:
  assumes "proto_reach x (a @ DeletePVC ns name pol r # b) ph"
  shows "\<exists>claim. ns = pvc_Namespace claim \<and> name = pvc_Name claim \<and> bound_by_watch x a claim \<and>
           (\<exists>v. PatchPV (pvc_VolumeName claim) retain_patch (Inr v) \<in> set a) \<and>
           (\<exists>c. PatchPVC ns name (finalizers_patch (pvc_Finalizers claim)) (Inr c) \<in> set a)"
proof -
  from reach_split [OF assms] obtain ph1 ph2
    where "proto_reach x a ph1" and step: "proto_step x ph1 (DeletePVC ns name pol r) ph2" by blast
  then have "log_inv x a ph1" by (blast intro: log_inv_reach)
  with step show ?thesis
    by (elim step_DeletePVC) (auto simp: log_inv_def bound_by_watch_def)
qed

lemma patches_distinct:
  "retain_patch \<noteq> unclaim_patch" "unclaim_patch \<noteq> retain_patch"
  "retain_patch \<noteq> claim_ref_patch c" "claim_ref_patch c \<noteq> retain_patch"
  "unclaim_patch \<noteq> claim_ref_patch c" "claim_ref_patch c \<noteq> unclaim_patch"
  by (simp_all add: retain_patch_def unclaim_patch_def claim_ref_patch_def nl_def)

text \<open>The patches of a volume come in one order: retain, drop the claim, hand to the user's claim.\<close>

lemma unclaim_after_delete:
  assumes "proto_reach x (a @ PatchPV name unclaim_patch r # b) ph"
  shows "\<exists>claim. name = pvc_VolumeName claim \<and> bound_by_watch x a claim \<and>
           DeletePVC (pvc_Namespace claim) (pvc_Name claim) (Some ''Foreground'') None \<in> set a"
proof -
  from reach_split [OF assms] obtain ph1 ph2
    where "proto_reach x a ph1" and step: "proto_step x ph1 (PatchPV name unclaim_patch r) ph2" by blast
  then have "log_inv x a ph1" by (blast intro: log_inv_reach)
  with step show ?thesis
    by (elim step_PatchPV) (auto simp: log_inv_def bound_by_watch_def patches_distinct)
qed

lemma claim_ref_after_bond:
  assumes "proto_reach x (a @ PatchPV name (claim_ref_patch c) r # b) ph"
  shows "\<exists>v (claim :: pvc). name = pv_Name v \<and> deletes_volume x \<and>
           PatchPV (pvc_VolumeName claim) unclaim_patch (Inr v) \<in> set a \<and>
           (\<exists>c'. PatchPVC (wanted_ns x) (pvc_Name (opt_PVC (pr_opts x)))
                  (bond_patch (pr_class x) (pv_Name v)) (Inr c') \<in> set a)"
proof -
  from reach_split [OF assms] obtain ph1 ph2
    where "proto_reach x a ph1" and step: "proto_step x ph1 (PatchPV name (claim_ref_patch c) r) ph2" by blast
  then have inv: "log_inv x a ph1" by (blast intro: log_inv_reach)
  from step obtain claim v where "ph1 = Bonded claim v" "name = pv_Name v" "deletes_volume x"
    by (elim step_PatchPV) (auto simp: patches_distinct)
  with inv have "PatchPV (pvc_VolumeName claim) unclaim_patch (Inr v) \<in> set a"
    and "\<exists>c'. PatchPVC (wanted_ns x) (pvc_Name (opt_PVC (pr_opts x)))
                  (bond_patch (pr_class x) (pv_Name v)) (Inr c') \<in> set a"
    by (auto simp: log_inv_def)
  with \<open>name = pv_Name v\<close> \<open>deletes_volume x\<close> show ?thesis by blast
qed

text \<open>Every volume patch of the protocol is one of the three.\<close>

lemma volume_patches:
  "proto_step x ph (PatchPV name b r) ph' \<Longrightarrow>
   b = retain_patch \<or> b = unclaim_patch \<or> (deletes_volume x \<and> b = claim_ref_patch (opt_PVC (pr_opts x)))"
  by (elim step_PatchPV) auto

lemma pod_deleted_as_created:
  "proto_reach x tr ph \<Longrightarrow>
   (\<forall>q claim. ph = Mounted q claim \<or> ph = PodPlaced q \<or> ph = Stopped (Mounted q claim) \<longrightarrow>
      (\<exists>err. CreatePod (wanted_ns x) (wanted_pod x) (q, err) \<in> set tr))"
proof (induction rule: proto_reach.induct)
  case reach_start
  then show ?case by simp
next
  case (reach_step tr ph c ph')
  from reach_step.hyps(2) reach_step.IH show ?case
    by (cases rule: proto_step.cases; cases ph) auto
qed

text \<open>The volume is handed to the user's claim by the last call of a run, if at all.\<close>

lemma handed_over_last:
  "proto_reach x tr ph \<Longrightarrow> PatchPV name (claim_ref_patch c) (Inr v) \<in> set tr \<Longrightarrow>
   \<exists>claim v. ph = Settled claim v"
proof (induction rule: proto_reach.induct)
  case reach_start
  then show ?case by simp
next
  case (reach_step tr ph d ph')
  show ?case
  proof (cases "PatchPV name (claim_ref_patch c) (Inr v) \<in> set tr")
    case True
    with reach_step show ?thesis by (auto elim: step_from_Settled)
  next
    case False
    with reach_step.prems have "d = PatchPV name (claim_ref_patch c) (Inr v)" by simp
    with reach_step.hyps(2) show ?thesis by (auto elim!: step_PatchPV simp: patches_distinct)
  qed
qed

lemma created_claims:
  assumes "proto_reach x tr ph" and "CreatePVC ns c r \<in> set tr"
  shows "ns = wanted_ns x \<and> c = wanted_claim x"
proof -
  from assms(2) obtain a b where "tr = a @ CreatePVC ns c r # b" by (meson split_list)
  with reach_split [of x a "CreatePVC ns c r" b ph] assms(1) show ?thesis
    by (auto elim: proto_step.cases)
qed

lemma deleted_pods:
  assumes "proto_reach x tr ph" and "DeletePod ns name r \<in> set tr"
  shows "\<exists>q err. ns = pod_Namespace q \<and> name = pod_Name q \<and>
           CreatePod (wanted_ns x) (wanted_pod x) (q, err) \<in> set tr"
proof -
  from assms(2) obtain a b where tr: "tr = a @ DeletePod ns name r # b" by (meson split_list)
  with reach_split [of x a "DeletePod ns name r" b ph] assms(1) obtain ph1 ph2
    where r1: "proto_reach x a ph1" and "proto_step x ph1 (DeletePod ns name r) ph2" by auto
  then obtain q claim where "ph1 = Mounted q claim" "ns = pod_Namespace q" "name = pod_Name q"
    by (elim step_DeletePod) auto
  with pod_deleted_as_created [OF r1] tr show ?thesis by auto
qed

end
