(* ===== verification/Refinement.thy ===== *)
theory Refinement
  imports Protocol
begin

text \<open>
  The code follows the protocol: every run of \<^verbatim>\<open>createPVbyAnnotation\<close> and \<^verbatim>\<open>createPVbyPOD\<close>, for
  every environment, makes calls that lead from the protocol's start to a phase that agrees with the
  result. The contract both methods share is the locale \<open>volume_creator\<close>; what \<^verbatim>\<open>Provision\<close>
  relies on is proved in it once.
\<close>

section \<open>Logs in a phase\<close>

definition in_phase :: "proto \<Rightarrow> call list \<Rightarrow> phase \<Rightarrow> call list \<Rightarrow> bool" where
  "in_phase x tr0 ph tr \<longleftrightarrow> (\<exists>new. tr = tr0 @ new \<and> proto_reach x new ph)"

lemma in_phase_start: "in_phase x tr0 Start tr0"
  by (simp add: in_phase_def reach_start)

lemma in_phase_step: "in_phase x tr0 ph tr \<Longrightarrow> proto_step x ph c ph' \<Longrightarrow> in_phase x tr0 ph' (tr @ [c])"
  unfolding in_phase_def by (metis append.assoc reach_step)

text \<open>A call that is a step of the protocol, whatever its answer.\<close>

lemma triple_proto:
  "(\<And>r. proto_step x ph (c r) (nxt r)) \<Longrightarrow>
   triple (on_log (in_phase x tr0 ph)) (perform f c) (\<lambda>r. on_log (in_phase x tr0 (nxt r)))"
  by (rule triple_perform) (rule in_phase_step)

definition given_up :: "phase \<Rightarrow> bool" where
  "given_up ph \<longleftrightarrow> (\<exists>q. ph = Stopped q) \<or> (\<exists>claim. ph = Unprotected claim) \<or> (\<exists>q claim. ph = Mounted q claim)"

text \<open>How a result and the phase reached agree.\<close>

definition outcome :: "(pv \<Rightarrow> phase \<Rightarrow> bool) \<Rightarrow> go_error + pv \<Rightarrow> phase \<Rightarrow> bool" where
  "outcome success r ph = (case r of Inl err \<Rightarrow> given_up ph | Inr v \<Rightarrow> success v ph)"

lemma outcome_simps:
  "outcome S (Inl err) ph \<longleftrightarrow> given_up ph"
  "outcome S (Inr v) ph \<longleftrightarrow> S v ph"
  "given_up (Stopped ph)" "given_up (Unprotected claim)" "given_up (Mounted q claim)"
  by (simp_all add: outcome_def given_up_def)

definition finished :: "proto \<Rightarrow> pv \<Rightarrow> phase \<Rightarrow> bool" where
  "finished x v ph \<longleftrightarrow> (\<exists>claim. ph = (if deletes_volume x then Settled claim v else Bonded claim v))"

text \<open>A run does not give up on a refused deletion before it was refused five times.\<close>

definition weary :: "phase \<Rightarrow> call list \<Rightarrow> bool" where
  "weary ph tr =
     (case ph of
        Unprotected claim \<Rightarrow> 5 \<le> length (filter asks_claim tr)
      | Mounted q claim \<Rightarrow> 5 \<le> length (filter asks_pod tr)
      | _ \<Rightarrow> True)"

definition at_end :: "proto \<Rightarrow> call list \<Rightarrow> phase \<Rightarrow> call list \<Rightarrow> bool" where
  "at_end x tr0 ph tr \<longleftrightarrow> (\<exists>new. tr = tr0 @ new \<and> proto_reach x new ph \<and> weary ph new)"

lemma at_end_in_phase: "at_end x tr0 ph tr \<Longrightarrow> in_phase x tr0 ph tr"
  by (auto simp: at_end_def in_phase_def)

abbreviation ends :: "proto \<Rightarrow> call list \<Rightarrow> (phase \<Rightarrow> bool) \<Rightarrow> 'e world \<Rightarrow> bool" where
  "ends x tr0 S \<equiv> on_log (\<lambda>tr. \<exists>ph. at_end x tr0 ph tr \<and> S ph)"

lemma triple_stop:
  "S r ph \<and> (\<forall>tr. weary ph tr) \<Longrightarrow>
   triple (on_log (in_phase x tr0 ph)) (State_Monad.return r) (\<lambda>r. ends x tr0 (S r))"
  by (rule triple_return) (auto simp: on_log_def in_phase_def at_end_def)

lemma triple_ends_return:
  "S r ph \<Longrightarrow> triple (on_log (at_end x tr0 ph)) (State_Monad.return r) (\<lambda>r. ends x tr0 (S r))"
  by (auto intro!: triple_return simp: on_log_def)

lemma triple_go_on: "triple (on_log (in_phase x tr0 ph)) m Q \<Longrightarrow> triple (on_log (at_end x tr0 ph)) m Q"
  by (erule triple_conseq) (auto simp: on_log_def dest: at_end_in_phase)

section \<open>releasePV and bondPVC\<close>

lemma retain_triple:
  "triple (on_log (in_phase x tr0 (Claimed claim))) (patch_pv c (pvc_VolumeName claim) retain_patch)
     (\<lambda>r. on_log (in_phase x tr0 (case r of Inl e \<Rightarrow> Stopped (Claimed claim) | Inr v \<Rightarrow> Retained claim)))"
  unfolding patch_pv_def by (rule triple_proto) (auto intro: proto_step.intros split: sum.split)

lemma unprotect_triple:
  "triple (on_log (in_phase x tr0 (Retained claim)))
     (patch_pvc c (pvc_Namespace claim) (pvc_Name claim) (finalizers_patch (pvc_Finalizers claim)))
     (\<lambda>r. on_log (in_phase x tr0 (case r of Inl e \<Rightarrow> Stopped (Retained claim) | Inr v \<Rightarrow> Unprotected claim)))"
  unfolding patch_pvc_def by (rule triple_proto) (auto intro: proto_step.intros split: sum.split)

lemma free_triple:
  "triple (on_log (in_phase x tr0 (ClaimGone claim))) (patch_pv c (pvc_VolumeName claim) unclaim_patch)
     (\<lambda>r. on_log (in_phase x tr0 (case r of Inl e \<Rightarrow> Stopped (ClaimGone claim) | Inr v \<Rightarrow> Freed claim v)))"
  unfolding patch_pv_def by (rule triple_proto) (auto intro: proto_step.intros split: sum.split)

text \<open>A log in a phase with at least some number of questions of one kind.\<close>

definition asking :: "(call \<Rightarrow> bool) \<Rightarrow> nat \<Rightarrow> proto \<Rightarrow> call list \<Rightarrow> phase \<Rightarrow> call list \<Rightarrow> bool" where
  "asking P k x tr0 ph tr \<longleftrightarrow> (\<exists>new. tr = tr0 @ new \<and> proto_reach x new ph \<and> k \<le> length (filter P new))"

lemma asking_step:
  "asking P k x tr0 ph tr \<Longrightarrow> proto_step x ph c ph' \<Longrightarrow> P c \<Longrightarrow> asking P (Suc k) x tr0 ph' (tr @ [c])"
  unfolding asking_def by (elim exE conjE, rule exI [where x = "_ @ [c]"]) (auto intro: reach_step)

lemma asking_in_phase: "asking P k x tr0 ph tr \<Longrightarrow> in_phase x tr0 ph tr"
  by (auto simp: asking_def in_phase_def)

lemma triple_ask:
  assumes "\<And>r. proto_step x ph (c r) (nxt r)" and "\<And>r. P (c r)"
  shows "triple (on_log (asking P k x tr0 ph)) (perform f c) (\<lambda>r. on_log (asking P (Suc k) x tr0 (nxt r)))"
  by (rule triple_perform) (rule asking_step, assumption, rule assms, rule assms)

text \<open>The deletions with back-off: an error of the loop comes after that many refusals.\<close>

abbreviation asked_in_vain :: "(call \<Rightarrow> bool) \<Rightarrow> nat \<Rightarrow> proto \<Rightarrow> call list \<Rightarrow> phase \<Rightarrow> phase \<Rightarrow> go_error + unit \<Rightarrow> 'e world \<Rightarrow> bool" where
  "asked_in_vain P n x tr0 ph ph' r \<equiv>
     on_log (case r of Inl e \<Rightarrow> asking P n x tr0 ph | Inr v \<Rightarrow> in_phase x tr0 ph')"

lemma retry_delete_triple:
  "triple (on_log (in_phase x tr0 (Unprotected claim))) (retry n (try_delete_pvc p claim))
     (asked_in_vain asks_claim n x tr0 (Unprotected claim) (ClaimGone claim))"
proof -
  let ?nxt = "\<lambda>r. case r of None \<Rightarrow> ClaimGone claim | Some e \<Rightarrow> Unprotected claim"
  have "triple (on_log (asking asks_claim k x tr0 (Unprotected claim))) (try_delete_pvc p claim)
     (\<lambda>r w. case r of
        Inl err \<Rightarrow> asked_in_vain asks_claim n x tr0 (Unprotected claim) (ClaimGone claim) (Inl err) w
      | Inr ok \<Rightarrow> if ok then asked_in_vain asks_claim n x tr0 (Unprotected claim) (ClaimGone claim) (Inr ()) w
                  else on_log (asking asks_claim (Suc k) x tr0 (Unprotected claim)) w)" for k
    unfolding try_delete_pvc_def delete_pvc_def
    by (rule triple_bind_option [OF triple_ask [where nxt = ?nxt]])
      (auto intro!: triple_return intro: proto_step.intros asking_in_phase simp: on_log_def split: option.split)
  from triple_retry_counted [where I = "\<lambda>k. on_log (asking asks_claim k x tr0 (Unprotected claim))", OF this, of 0 n]
  have "triple (on_log (asking asks_claim 0 x tr0 (Unprotected claim))) (retry n (try_delete_pvc p claim))
     (asked_in_vain asks_claim n x tr0 (Unprotected claim) (ClaimGone claim))" by simp
  then show ?thesis by (rule triple_conseq) (auto simp: on_log_def in_phase_def asking_def)
qed

lemma triple_weary:
  "S r ph \<and> (\<forall>tr. n \<le> length (filter P tr) \<longrightarrow> weary ph tr) \<Longrightarrow>
   triple (on_log (asking P n x tr0 ph)) (State_Monad.return r) (\<lambda>r. ends x tr0 (S r))"
  by (rule triple_return) (auto simp: on_log_def asking_def at_end_def)

text \<open>The provisioner's back-off has five steps.\<close>

lemma backoff_five:
  assumes "wf_provisioner p" and "backoff_contract (hp_client p)"
  shows "cl_ExponentialBackoff (hp_client p) (hp_backoff p) cond = retry 5 cond"
  using assms backoff_retry [of "hp_client p" "hp_backoff p" cond]
  by (simp add: wf_provisioner_def defaultCreateProvisionedPVRetryCount_def)

lemma releasePV_triple:
  assumes "wf_provisioner p" and "backoff_contract (hp_client p)"
  shows "triple (on_log (in_phase x tr0 (Claimed claim))) (releasePV p claim)
     (\<lambda>r. ends x tr0 (outcome (\<lambda>v ph. ph = Freed claim v) r))"
  unfolding releasePV_def backoff_five [OF assms]
  apply (rule triple_bind_sum [OF retain_triple]; simp only: sum.case)
   apply (rule triple_stop, simp add: outcome_simps weary_def)
  apply (rule triple_bind_sum [OF unprotect_triple]; simp only: sum.case)
   apply (rule triple_stop, simp add: outcome_simps weary_def)
  apply (rule triple_bind_sum [OF retry_delete_triple]; simp only: sum.case)
   apply (rule triple_weary, simp add: outcome_simps weary_def)
  apply (rule triple_bind_sum [OF free_triple]; simp only: sum.case)
   apply (rule triple_stop, simp add: outcome_simps weary_def)+
  done

lemma bond_triple:
  "opts = pr_opts x \<Longrightarrow> sc = pr_class x \<Longrightarrow>
   triple (on_log (in_phase x tr0 (Freed claim v)))
     (patch_pvc c (pvc_Namespace (opt_PVC opts)) (pvc_Name (opt_PVC opts)) (bond_patch sc (pv_Name v)))
     (\<lambda>r. on_log (in_phase x tr0 (case r of Inl e \<Rightarrow> Stopped (Freed claim v) | Inr c \<Rightarrow> Bonded claim v)))"
  unfolding patch_pvc_def wanted_ns_def [symmetric]
  by (rule triple_proto) (auto simp: wanted_ns_def [symmetric] intro: proto_step.intros split: sum.split)

lemma settle_triple:
  "deletes_volume x \<Longrightarrow>
   triple (on_log (in_phase x tr0 (Bonded claim v)))
     (patch_pv c (pv_Name v) (claim_ref_patch (opt_PVC (pr_opts x))))
     (\<lambda>r. on_log (in_phase x tr0 (case r of Inl e \<Rightarrow> Stopped (Bonded claim v) | Inr _ \<Rightarrow> Settled claim v)))"
  unfolding patch_pv_def by (rule triple_proto) (auto intro: proto_step.intros split: sum.split)

definition bond_outcome :: "proto \<Rightarrow> pvc \<Rightarrow> pv \<Rightarrow> go_error option \<Rightarrow> phase \<Rightarrow> bool" where
  "bond_outcome x claim v err ph =
     (case err of Some e \<Rightarrow> given_up ph
      | None \<Rightarrow> ph = (if deletes_volume x then Settled claim v else Bonded claim v))"

lemma bondPVC_triple:
  assumes "opts = pr_opts x" and "sc = pr_class x"
  shows "triple (on_log (in_phase x tr0 (Freed claim v))) (bondPVC p opts (pv_Name v) sc)
     (\<lambda>err. ends x tr0 (bond_outcome x claim v err))"
proof (cases "deletes_volume x")
  case True
  then have policy: "(sc_ReclaimPolicy sc = Some PersistentVolumeReclaimDelete) = True"
    using assms by (simp add: deletes_volume_def)
  show ?thesis
    unfolding bondPVC_def policy if_True
    apply (rule triple_bind_sum [OF bond_triple [OF assms]]; simp only: sum.case)
     apply (rule triple_stop, simp add: weary_def bond_outcome_def outcome_simps)
    apply (unfold assms, rule triple_bind_sum [OF settle_triple [OF True]]; simp only: sum.case)
     apply (rule triple_stop, simp add: weary_def bond_outcome_def outcome_simps True)+
    done
next
  case False
  then have policy: "(sc_ReclaimPolicy sc = Some PersistentVolumeReclaimDelete) = False"
    using assms by (simp add: deletes_volume_def)
  show ?thesis
    unfolding bondPVC_def policy if_False
    apply (rule triple_bind_sum [OF bond_triple [OF assms]]; simp only: sum.case)
     apply (rule triple_stop, simp add: weary_def bond_outcome_def outcome_simps False)+
    done
qed

text \<open>An assertion about the end of a run is an assertion about each phase it may be in.\<close>

lemma triple_ends:
  "(\<And>ph. S ph \<Longrightarrow> triple (on_log (at_end x tr0 ph)) m Q) \<Longrightarrow> triple (ends x tr0 S) m Q"
  by (force simp: triple_def on_log_def)

lemma release_and_bond_triple:
  assumes "wf_provisioner p" and "backoff_contract (hp_client p)"
    and "opts = pr_opts x" and "sc = pr_class x"
  shows "triple (on_log (in_phase x tr0 (Claimed claim))) (release_and_bond p opts sc claim)
     (\<lambda>r. ends x tr0 (outcome (finished x) r))"
  unfolding release_and_bond_def
proof (rule triple_bind_sum [OF releasePV_triple [OF assms(1,2)]])
  fix e
  show "triple (ends x tr0 (outcome (\<lambda>v ph. ph = Freed claim v) (Inl e))) (State_Monad.return (Inl e))
          (\<lambda>r. ends x tr0 (outcome (finished x) r))"
    by (rule triple_ends, rule triple_ends_return) (simp add: outcome_simps)
next
  fix v
  show "triple (ends x tr0 (outcome (\<lambda>v ph. ph = Freed claim v) (Inr v)))
          (bondPVC p opts (pv_Name v) sc \<bind>
             (\<lambda>err. case err of None \<Rightarrow> State_Monad.return (Inr v) | Some e \<Rightarrow> State_Monad.return (Inl e)))
          (\<lambda>r. ends x tr0 (outcome (finished x) r))"
    apply (rule triple_ends)
    apply (simp only: outcome_simps)
    apply (rule triple_go_on, rule triple_bind_option [OF bondPVC_triple [OF assms(3,4)]])
     apply (rule triple_ends, rule triple_ends_return, auto simp: bond_outcome_def outcome_simps finished_def)+
    done
qed

section \<open>The two methods\<close>

lemma lister_triple:
  "triple (on_log (in_phase x tr0 Start)) (lister_get_pvc c (wanted_ns x) (wanted_name x))
     (\<lambda>r. on_log (in_phase x tr0
        (case r of Inl e \<Rightarrow> (if IsNotFound e then Absent else Stopped Start) | Inr _ \<Rightarrow> Requested)))"
  unfolding lister_get_pvc_def by (rule triple_proto) (auto intro: proto_step.intros split: sum.split)

lemma create_claim_triple:
  "triple (on_log (in_phase x tr0 Absent)) (create_pvc c (wanted_ns x) (wanted_claim x))
     (\<lambda>r. on_log (in_phase x tr0 (case r of Inl e \<Rightarrow> Stopped Absent | Inr _ \<Rightarrow> Requested)))"
  unfolding create_pvc_def by (rule triple_proto) (auto intro: proto_step.intros split: sum.split)

lemma ensure_pvc_triple:
  "triple (on_log (in_phase x tr0 Start)) (ensure_pvc p (wanted_claim x))
     (\<lambda>err. ends x tr0 (\<lambda>ph. case err of None \<Rightarrow> ph = Requested | Some e \<Rightarrow> given_up ph))"
  unfolding ensure_pvc_def wanted_claim_simps
proof (rule triple_bind_sum [OF lister_triple], unfold sum.case)
  fix e
  show "triple (on_log (in_phase x tr0 (if IsNotFound e then Absent else Stopped Start)))
     (if \<not> IsNotFound e
      then State_Monad.return (Some (failed ''failed to get persistentvolumeclaim: %v'' e))
      else create_pvc (hp_client p) (wanted_ns x) (wanted_claim x) \<bind>
        (\<lambda>r. case r of Inl err \<Rightarrow> State_Monad.return (Some (failed ''failed to create persistentvolumeclaim: %v'' err))
             | Inr _ \<Rightarrow> State_Monad.return None))
     (\<lambda>err. ends x tr0 (\<lambda>ph. case err of None \<Rightarrow> ph = Requested | Some e \<Rightarrow> given_up ph))"
  proof (cases "IsNotFound e")
    case True
    show ?thesis
      using True
      apply (simp only: if_True if_False simp_thms)
      apply (rule triple_bind_sum [OF create_claim_triple]; simp only: sum.case)
       apply (rule triple_stop, simp add: outcome_simps weary_def)+
      done
  next
    case False
    then show ?thesis by (simp, intro triple_stop) (simp add: outcome_simps weary_def)
  qed
next
  fix v
  show "triple (on_log (in_phase x tr0 Requested)) (State_Monad.return None)
     (\<lambda>err. ends x tr0 (\<lambda>ph. case err of None \<Rightarrow> ph = Requested | Some e \<Rightarrow> given_up ph))"
    by (rule triple_stop) (simp add: weary_def)
qed

lemma waitBindPVC_triple:
  assumes "waiting x ph"
  shows "triple (on_log (in_phase x tr0 ph)) (waitBindPVC p (wanted_claim x))
     (\<lambda>r. case r of Inl err \<Rightarrow> ends x tr0 given_up | Inr claim \<Rightarrow> on_log (in_phase x tr0 (bound_phase ph claim)))"
proof -
  have watch: "triple (on_log (in_phase x tr0 ph))
      (watch_pvc (hp_client p) (wanted_ns x) (name_selector (wanted_name x)))
      (\<lambda>r. on_log (in_phase x tr0 (case r of Inl e \<Rightarrow> Stopped ph
         | Inr events \<Rightarrow> (case waitBind_loop (wanted_name x) events of
             Inl err \<Rightarrow> Stopped ph | Inr claim \<Rightarrow> bound_phase ph claim))))"
    unfolding watch_pvc_def
    by (rule triple_proto) (auto intro: proto_step.intros assms split: sum.split)
  have stopped: "on_log (in_phase x tr0 (Stopped ph)) w \<Longrightarrow> ends x tr0 given_up w" for w
    unfolding on_log_def in_phase_def at_end_def by (rule exI [where x = "Stopped ph"]) (auto simp: weary_def outcome_simps)
  show ?thesis
    unfolding waitBindPVC_def wanted_claim_simps
    by (rule triple_bind_sum [OF watch]; rule triple_return) (auto dest: stopped split: sum.split)
qed

text \<open>The result of a method, with the panic it never ends in once a node is selected.\<close>

definition run_outcome :: "proto \<Rightarrow> (go_error + pv) run \<Rightarrow> phase \<Rightarrow> bool" where
  "run_outcome x r ph = (case r of Panic m \<Rightarrow> False | Done res \<Rightarrow> outcome (finished x) res ph)"

lemma run_outcome_simps:
  "run_outcome x (Done r) ph \<longleftrightarrow> outcome (finished x) r ph"
  "\<not> run_outcome x (Panic m) ph"
  by (simp_all add: run_outcome_def)

lemma release_and_bond_Done_triple:
  assumes "wf_provisioner p" and "backoff_contract (hp_client p)"
    and "opts = pr_opts x" and "sc = pr_class x"
  shows "triple (on_log (in_phase x tr0 (Claimed claim)))
     (release_and_bond p opts sc claim \<bind> (\<lambda>r. State_Monad.return (Done r)))
     (\<lambda>r. ends x tr0 (run_outcome x r))"
  by (rule triple_post_return, rule triple_conseq [OF release_and_bond_triple [OF assms]])
    (auto simp: run_outcome_simps)

lemma createPVbyAnnotation_triple:
  assumes wf: "wf_provisioner p" "backoff_contract (hp_client p)"
    and x: "x = \<lparr>pr_method = ByAnnotation, pr_opts = opts, pr_class = sc, pr_node = n\<rparr>"
    and node: "opt_SelectedNode opts = Some n"
  shows "triple (on_log (in_phase x tr0 Start)) (createPVbyAnnotation p opts sc)
     (\<lambda>r. ends x tr0 (run_outcome x r))"
proof -
  have claim: "annotated_pvc opts sc n = wanted_claim x" and w: "waiting x Requested"
    by (simp_all add: x wanted_claim_def)
  show ?thesis
    unfolding createPVbyAnnotation_def node option.case Let_def claim
    apply (rule triple_bind_option [OF ensure_pvc_triple]; rule triple_ends; simp only: option.case)
     apply (rule triple_go_on, rule triple_bind_sum [OF waitBindPVC_triple [OF w]]; simp only: sum.case)
      apply (rule triple_ends, rule triple_ends_return, simp add: run_outcome_simps outcome_simps)
     apply (simp only: bound_phase.simps, rule release_and_bond_Done_triple [OF wf]; simp add: x)
    apply (rule triple_ends_return, simp add: run_outcome_simps outcome_simps)
    done
qed

lemma create_pod_triple:
  assumes "pr_method x = ByPod"
  shows "triple (on_log (in_phase x tr0 Requested)) (create_pod c (wanted_ns x) (wanted_pod x))
     (\<lambda>r. on_log (in_phase x tr0
        (case (case snd r of None \<Rightarrow> None | Some e \<Rightarrow> if \<not> IsAlreadyExists e then Some e else None) of
           Some e \<Rightarrow> Stopped Requested | None \<Rightarrow> PodPlaced (fst r))))"
  unfolding create_pod_def
  by (rule triple_proto) (auto intro!: proto_step.intros assms split: option.split)

lemma retry_delete_pod_triple:
  "triple (on_log (in_phase x tr0 (Mounted q claim))) (retry n (try_delete_pod p q))
     (asked_in_vain asks_pod n x tr0 (Mounted q claim) (Claimed claim))"
proof -
  let ?nxt = "\<lambda>err. case err of None \<Rightarrow> Claimed claim | Some e \<Rightarrow> if IsNotFound e then Claimed claim else Mounted q claim"
  have "triple (on_log (asking asks_pod k x tr0 (Mounted q claim))) (try_delete_pod p q)
     (\<lambda>r w. case r of
        Inl err \<Rightarrow> asked_in_vain asks_pod n x tr0 (Mounted q claim) (Claimed claim) (Inl err) w
      | Inr ok \<Rightarrow> if ok then asked_in_vain asks_pod n x tr0 (Mounted q claim) (Claimed claim) (Inr ()) w
                  else on_log (asking asks_pod (Suc k) x tr0 (Mounted q claim)) w)" for k
    unfolding try_delete_pod_def delete_pod_def
    by (rule triple_bind_option [OF triple_ask [where nxt = ?nxt]])
      (auto intro!: triple_return intro: proto_step.intros asking_in_phase simp: on_log_def split: option.split)
  from triple_retry_counted [where I = "\<lambda>k. on_log (asking asks_pod k x tr0 (Mounted q claim))", OF this, of 0 n]
  have "triple (on_log (asking asks_pod 0 x tr0 (Mounted q claim))) (retry n (try_delete_pod p q))
     (asked_in_vain asks_pod n x tr0 (Mounted q claim) (Claimed claim))" by simp
  then show ?thesis by (rule triple_conseq) (auto simp: on_log_def in_phase_def asking_def)
qed

lemma createPVbyPOD_triple:
  assumes wf: "wf_provisioner p" "backoff_contract (hp_client p)"
    and x: "x = \<lparr>pr_method = ByPod, pr_opts = opts, pr_class = sc, pr_node = n\<rparr>"
    and node: "opt_SelectedNode opts = Some n"
  shows "triple (on_log (in_phase x tr0 Start)) (createPVbyPOD p opts sc)
     (\<lambda>r. ends x tr0 (run_outcome x r))"
proof -
  have claim: "requested_pvc opts sc = wanted_claim x" and w: "waiting x (PodPlaced q)" for q
    by (simp_all add: x wanted_claim_def)
  have pod: "provisioner_pod opts (wanted_claim x) n = wanted_pod x" by (simp add: x wanted_pod_def)
  have m: "pr_method x = ByPod" by (simp add: x)
  have after_pod: "triple (on_log (in_phase x tr0 (PodPlaced q)))
      (waitBindPVC p (wanted_claim x) \<bind> (\<lambda>r. case r of
          Inl err \<Rightarrow> State_Monad.return (Done (Inl err))
        | Inr claim \<Rightarrow> retry 5 (try_delete_pod p q) \<bind> (\<lambda>r. case r of
              Inl err \<Rightarrow> State_Monad.return (Done (Inl err))
            | Inr _ \<Rightarrow> release_and_bond p opts sc claim \<bind> (\<lambda>r. State_Monad.return (Done r)))))
      (\<lambda>r. ends x tr0 (run_outcome x r))" for q
    apply (rule triple_bind_sum [OF waitBindPVC_triple [OF w]]; simp only: sum.case)
     apply (rule triple_ends, rule triple_ends_return, simp add: run_outcome_simps outcome_simps)
    apply (simp only: bound_phase.simps)
    apply (rule triple_bind_sum [OF retry_delete_pod_triple]; simp only: sum.case)
     apply (rule triple_weary, simp add: run_outcome_simps outcome_simps weary_def)
    apply (rule release_and_bond_Done_triple [OF wf]; simp add: x)
    done
  show ?thesis
    unfolding createPVbyPOD_def Let_def claim node option.case pod wanted_claim_simps backoff_five [OF wf]
    apply (rule triple_bind_option [OF ensure_pvc_triple]; rule triple_ends; simp only: option.case)
     apply (rule triple_go_on, rule triple_bind [OF create_pod_triple [OF m]])
     apply (rule triple_prod, rule triple_option; simp)
      apply (rule after_pod)
     apply (rule triple_stop, simp add: run_outcome_simps outcome_simps weary_def)
    apply (rule triple_ends_return, simp add: run_outcome_simps outcome_simps)
    done
qed

section \<open>The contract of the two methods\<close>

locale volume_creator =
  fixes create :: "'e HybridProvisioner \<Rightarrow> ProvisionOptions \<Rightarrow> storage_class \<Rightarrow>
      ('e world, (go_error + pv) run) state"
    and kind :: creation_method
  assumes follows_protocol:
    "wf_provisioner p \<Longrightarrow> backoff_contract (hp_client p) \<Longrightarrow> opt_SelectedNode opts = Some n \<Longrightarrow>
     x = \<lparr>pr_method = kind, pr_opts = opts, pr_class = sc, pr_node = n\<rparr> \<Longrightarrow>
     triple (on_log (in_phase x tr0 Start)) (create p opts sc) (\<lambda>r. ends x tr0 (run_outcome x r))"
begin

lemma create_run:
  assumes "wf_provisioner p" and "backoff_contract (hp_client p)"
    and "opt_SelectedNode opts = Some n"
    and "run_state (create p opts sc) w = (r, w')"
  shows "\<exists>new ph. calls w' = calls w @ new \<and>
     proto_reach \<lparr>pr_method = kind, pr_opts = opts, pr_class = sc, pr_node = n\<rparr> new ph \<and>
     run_outcome \<lparr>pr_method = kind, pr_opts = opts, pr_class = sc, pr_node = n\<rparr> r ph \<and> weary ph new"
proof -
  let ?x = "\<lparr>pr_method = kind, pr_opts = opts, pr_class = sc, pr_node = n\<rparr>"
  have "on_log (in_phase ?x (calls w) Start) w" by (simp add: on_log_def in_phase_start)
  from tripleD [OF follows_protocol [OF assms(1-3) refl] this assms(4)]
  show ?thesis by (auto simp: on_log_def at_end_def)
qed

lemma create_no_panic:
  assumes "wf_provisioner p" and "backoff_contract (hp_client p)"
    and "opt_SelectedNode opts = Some n"
    and "run_state (create p opts sc) w = (r, w')"
  shows "r \<noteq> Panic m"
  using create_run [OF assms] by (auto simp: run_outcome_def)

end

interpretation annotation: volume_creator createPVbyAnnotation ByAnnotation
  by unfold_locales (rule createPVbyAnnotation_triple)

interpretation pod: volume_creator createPVbyPOD ByPod
  by unfold_locales (rule createPVbyPOD_triple)

end
