(* ===== verification/Safety.thy ===== *)
theory Safety
  imports Refinement
begin

text \<open>
  What the protocol gives for \<^verbatim>\<open>Provision\<close>: its runs in every environment, and a calculus that
  counts the calls they make.
\<close>

section \<open>Runs of Provision\<close>

definition creation_kind :: "'e HybridProvisioner \<Rightarrow> creation_method" where
  "creation_kind p = (if hp_method p = methodPod then ByPod else ByAnnotation)"

definition protocol_of :: "'e HybridProvisioner \<Rightarrow> ProvisionOptions \<Rightarrow> storage_class \<Rightarrow> node \<Rightarrow> proto" where
  "protocol_of p opts sc n =
     \<lparr>pr_method = creation_kind p, pr_opts = opts, pr_class = sc, pr_node = n\<rparr>"

lemma protocol_of_sel [simp]:
  "pr_method (protocol_of p opts sc n) = creation_kind p"
  "pr_opts (protocol_of p opts sc n) = opts"
  "pr_class (protocol_of p opts sc n) = sc"
  "pr_node (protocol_of p opts sc n) = n"
  by (simp_all add: protocol_of_def)

text \<open>The names the storage class of the request lists.\<close>

definition requested_classes :: "ProvisionOptions \<Rightarrow> string list option" where
  "requested_classes opts =
     (case opt_StorageClass opts of None \<Rightarrow> None
      | Some sc \<Rightarrow> map_option (\<lambda>s. strings_Split s CHR '','') (sc_Parameters sc ''storageClasses''))"

text \<open>The class \<^verbatim>\<open>Provision\<close> goes on with, if it gets that far.\<close>

definition chosen_class :: "'e HybridProvisioner \<Rightarrow> ProvisionOptions \<Rightarrow> storage_class option" where
  "chosen_class p opts =
     (case requested_classes opts of None \<Rightarrow> None
      | Some names \<Rightarrow>
          (case getStorageClassFromNode p (opt_SelectedNode opts) names of
             Done (Inr sc) \<Rightarrow> Some sc | _ \<Rightarrow> None))"

lemma chosen_class_node: "chosen_class p opts = Some sc \<Longrightarrow> \<exists>n. opt_SelectedNode opts = Some n"
  by (auto simp: chosen_class_def getStorageClassFromNode_def split: option.splits)

lemma Provision_not_chosen:
  assumes "chosen_class p opts = None"
  shows "\<exists>r. run_state (Provision p opts) w = (r, w) \<and> (\<forall>v st err. r \<noteq> Provisioned (Some v) st err)"
  using assms
  by (auto simp: Provision_def chosen_class_def requested_classes_def
      split: option.splits run.splits sum.splits)

lemma Provision_chosen:
  assumes "wf_provisioner p" and "chosen_class p opts = Some sc"
  shows "Provision p opts =
     (if creation_kind p = ByPod then createPVbyPOD p opts sc else createPVbyAnnotation p opts sc)
       \<bind> (\<lambda>r. State_Monad.return (provision_result_of r))"
  using assms
  by (auto simp: Provision_def chosen_class_def requested_classes_def creation_kind_def
      wf_provisioner_def methodPod_def methodDefault_def methodAnnotation_def
      split: option.splits run.splits sum.splits)

lemma Provision_run:
  assumes wf: "wf_provisioner p" "backoff_contract (hp_client p)"
    and sc: "chosen_class p opts = Some sc" and n: "opt_SelectedNode opts = Some n"
    and run: "run_state (Provision p opts) w = (res, w')"
  shows "\<exists>new ph r. calls w' = calls w @ new \<and> proto_reach (protocol_of p opts sc n) new ph \<and>
     run_outcome (protocol_of p opts sc n) r ph \<and> res = provision_result_of r \<and> weary ph new"
proof -
  let ?create = "if creation_kind p = ByPod then createPVbyPOD p opts sc else createPVbyAnnotation p opts sc"
  obtain r w1 where r: "run_state ?create w = (r, w1)" by (metis prod.exhaust)
  with run Provision_chosen [OF wf(1) sc] have res: "res = provision_result_of r" "w' = w1" by auto
  show ?thesis
  proof (cases "creation_kind p")
    case ByAnnotation
    then show ?thesis
      using annotation.create_run [OF wf n, of sc w r w1] r res by (auto simp: protocol_of_def)
  next
    case ByPod
    then show ?thesis
      using pod.create_run [OF wf n, of sc w r w1] r res by (auto simp: protocol_of_def)
  qed
qed

text \<open>The calls a run of \<^verbatim>\<open>Provision\<close> adds to the log.\<close>

definition provision_calls :: "'e HybridProvisioner \<Rightarrow> ProvisionOptions \<Rightarrow> 'e world \<Rightarrow> call list" where
  "provision_calls p opts w = drop (length (calls w)) (calls (snd (run_state (Provision p opts) w)))"

definition provision_returns :: "'e HybridProvisioner \<Rightarrow> ProvisionOptions \<Rightarrow> 'e world \<Rightarrow> provision_result" where
  "provision_returns p opts w = fst (run_state (Provision p opts) w)"

text \<open>The two ways a run can go: no class is chosen and no call made, or the protocol is followed.\<close>

lemma Provision_cases:
  assumes wf: "wf_provisioner p" "backoff_contract (hp_client p)"
  obtains (idle) "chosen_class p opts = None" and "provision_calls p opts w = []"
      and "\<And>v st err. provision_returns p opts w \<noteq> Provisioned (Some v) st err"
  | (ran) sc n ph r where "chosen_class p opts = Some sc" and "opt_SelectedNode opts = Some n"
      and "proto_reach (protocol_of p opts sc n) (provision_calls p opts w) ph"
      and "run_outcome (protocol_of p opts sc n) r ph"
      and "provision_returns p opts w = provision_result_of r"
      and "weary ph (provision_calls p opts w)"
proof (cases "chosen_class p opts")
  case None
  with Provision_not_chosen [OF this, of w] idle show ?thesis
    by (auto simp: provision_calls_def provision_returns_def)
next
  case (Some sc)
  then obtain n where n: "opt_SelectedNode opts = Some n" using chosen_class_node by blast
  obtain res w' where "run_state (Provision p opts) w = (res, w')" by (metis prod.exhaust)
  with Provision_run [OF wf Some n this] ran [OF Some n] show ?thesis
    by (auto simp: provision_calls_def provision_returns_def)
qed

text \<open>The last phase of a run that returns a volume, and the three ways a run can end.\<close>

abbreviation final_phase :: "proto \<Rightarrow> pvc \<Rightarrow> pv \<Rightarrow> phase" where
  "final_phase x claim v \<equiv> (if deletes_volume x then Settled claim v else Bonded claim v)"

lemma final_phase_freed:
  "proto_reach x tr (final_phase x claim v) \<Longrightarrow> PatchPV (pvc_VolumeName claim) unclaim_patch (Inr v) \<in> set tr"
  by (drule log_inv_reach) (auto simp: log_inv_def split: if_splits)

lemma Provision_ends:
  assumes wf: "wf_provisioner p" "backoff_contract (hp_client p)"
  obtains (idle) "chosen_class p opts = None" and "provision_calls p opts w = []"
      and "\<And>v st err. provision_returns p opts w \<noteq> Provisioned (Some v) st err"
  | (success) sc n claim v where "chosen_class p opts = Some sc" and "opt_SelectedNode opts = Some n"
      and "proto_reach (protocol_of p opts sc n) (provision_calls p opts w) (final_phase (protocol_of p opts sc n) claim v)"
      and "provision_returns p opts w = Provisioned (Some (v\<lparr>pv_ResourceVersion := []\<rparr>)) ProvisioningFinished None"
  | (failure) sc n ph err where "chosen_class p opts = Some sc" and "opt_SelectedNode opts = Some n"
      and "proto_reach (protocol_of p opts sc n) (provision_calls p opts w) ph" and "given_up ph"
      and "provision_returns p opts w = Provisioned None ProvisioningFinished (Some err)"
  using wf
proof (cases rule: Provision_cases [of p opts w])
  case idle
  then show ?thesis by (rule that(1))
next
  case (ran sc n ph r)
  show ?thesis
  proof (cases r)
    case (Done res)
    then show ?thesis
    proof (cases res)
      case (Inl err)
      with Done ran show ?thesis
        by (intro that(3) [of sc n ph err]) (auto simp: run_outcome_def outcome_def provision_result_of_def)
    next
      case (Inr v)
      with Done ran(4) obtain claim where "ph = final_phase (protocol_of p opts sc n) claim v"
        by (auto simp: run_outcome_def outcome_def finished_def)
      with Done Inr ran show ?thesis
        by (intro that(2) [of sc n claim v]) (auto simp: provision_result_of_def)
    qed
  qed (use ran(4) in \<open>simp add: run_outcome_simps\<close>)
qed

lemma Provision_won:
  assumes "wf_provisioner p" and "backoff_contract (hp_client p)"
    and "provision_returns p opts w = Provisioned (Some v) st err"
  obtains sc n claim v0 where "chosen_class p opts = Some sc" and "pv_Name v0 = pv_Name v"
    and "proto_reach (protocol_of p opts sc n) (provision_calls p opts w) (final_phase (protocol_of p opts sc n) claim v0)"
  using assms(1,2)
proof (cases rule: Provision_ends [of p opts w])
  case (success sc n claim v0)
  with assms(3) show ?thesis by (intro that [of sc v0 n claim]) auto
qed (use assms(3) in fastforce)+

section \<open>Counting calls\<close>

text \<open>A computation adds at most so many calls of a kind to the log.\<close>

definition costs :: "(call \<Rightarrow> bool) \<Rightarrow> ('e world, 'a) state \<Rightarrow> nat \<Rightarrow> bool" where
  "costs P m k \<longleftrightarrow>
     (\<forall>w. length (filter P (calls (snd (run_state m w)))) \<le> length (filter P (calls w)) + k)"

lemma costs_return: "costs P (State_Monad.return x) k"
  by (simp add: costs_def)

lemma costs_perform: "costs P (perform f c) (Suc k)"
  by (simp add: costs_def)

lemma costs_bind:
  assumes "costs P m j" and "\<And>x. costs P (f x) k"
  shows "costs P (State_Monad.bind m f) (j + k)"
  unfolding costs_def
proof
  fix w
  obtain x w1 where m: "run_state m w = (x, w1)" by (metis prod.exhaust)
  have "length (filter P (calls w1)) \<le> length (filter P (calls w)) + j"
    using assms(1) m unfolding costs_def by (metis snd_conv)
  moreover have "length (filter P (calls (snd (run_state (f x) w1)))) \<le> length (filter P (calls w1)) + k"
    using assms(2) [of x] unfolding costs_def by blast
  ultimately show "length (filter P (calls (snd (run_state (State_Monad.bind m f) w)))) \<le> length (filter P (calls w)) + (j + k)"
    using m by simp
qed

lemma costs_sum: "(\<And>e. costs P (f e) k) \<Longrightarrow> (\<And>v. costs P (g v) k) \<Longrightarrow> costs P (case r of Inl e \<Rightarrow> f e | Inr v \<Rightarrow> g v) k"
  by (cases r) auto

lemma costs_option: "costs P f k \<Longrightarrow> (\<And>v. costs P (g v) k) \<Longrightarrow> costs P (case r of None \<Rightarrow> f | Some v \<Rightarrow> g v) k"
  by (cases r) auto

lemma costs_split_pair: "(\<And>x y. costs P (f x y) k) \<Longrightarrow> costs P (case r of (x, y) \<Rightarrow> f x y) k"
  by (cases r) auto

lemma costs_if: "costs P f k \<Longrightarrow> costs P g k \<Longrightarrow> costs P (if b then f else g) k"
  by simp

lemma costs_retry: "costs P cond j \<Longrightarrow> costs P (retry n cond) (n * j)"
proof (induction n)
  case 0
  then show ?case by (simp add: costs_return)
next
  case (Suc n)
  have "costs P (case r of Inl err \<Rightarrow> State_Monad.return (Inl err)
      | Inr ok \<Rightarrow> if ok then State_Monad.return (Inr ()) else retry n cond) (n * j)" for r
    using Suc by (auto intro!: costs_sum costs_if costs_return)
  then show ?case unfolding retry.simps mult_Suc by (rule costs_bind [OF Suc.prems])
qed

lemmas costs_rules = costs_return costs_sum costs_option costs_if

lemma costs_call: "costs P (State_Monad.bind (perform f c) g) (Suc k)" if "\<And>x. costs P (g x) k"
  using costs_bind [OF costs_perform [of P f c 0] that] by simp

lemma costs_backoff:
  assumes "wf_provisioner p" and "backoff_contract (hp_client p)"
    and "costs P cond 1" and "\<And>x. costs P (g x) k"
  shows "costs P (State_Monad.bind (cl_ExponentialBackoff (hp_client p) (hp_backoff p) cond) g) (5 + k)"
  unfolding backoff_five [OF assms(1,2)]
  using costs_bind [OF costs_retry [OF assms(3), of 5] assms(4)] by simp

lemma costs_ensure_pvc: "costs P (ensure_pvc p q) 2"
  unfolding ensure_pvc_def call_defs numeral_2_eq_2
  by (intro costs_call costs_rules)

lemma costs_waitBindPVC: "costs P (waitBindPVC p q) 1"
  unfolding waitBindPVC_def call_defs One_nat_def by (intro costs_call costs_rules)

lemma costs_bondPVC: "costs P (bondPVC p opts name sc) 2"
  unfolding bondPVC_def call_defs numeral_2_eq_2
  by (intro costs_call costs_rules)

lemma costs_try: "costs P (try_delete_pvc p q) 1" "costs P (try_delete_pod p x) 1"
  unfolding try_delete_pvc_def try_delete_pod_def call_defs One_nat_def
  by (intro costs_call costs_rules)+

lemma costs_mono: "costs P m j \<Longrightarrow> j \<le> k \<Longrightarrow> costs P m k"
  unfolding costs_def by (meson add_left_mono order_trans)

lemma costs_releasePV:
  assumes "wf_provisioner p" and "backoff_contract (hp_client p)"
  shows "costs P (releasePV p q) 8"
proof -
  have "costs P (releasePV p q) (Suc (Suc (5 + Suc 0)))"
    unfolding releasePV_def patch_pv_def patch_pvc_def
    by (intro costs_call costs_rules costs_backoff [OF assms] costs_try)
  then show ?thesis by simp
qed

lemma costs_release_and_bond:
  assumes "wf_provisioner p" and "backoff_contract (hp_client p)"
  shows "costs P (release_and_bond p opts sc q) 10"
proof -
  have "costs P (release_and_bond p opts sc q) (8 + (2 + 0))"
    unfolding release_and_bond_def
    by (intro costs_bind [OF costs_releasePV [OF assms]] costs_sum costs_bind [OF costs_bondPVC]
        costs_rules)
  then show ?thesis by simp
qed

lemma costs_createPVbyAnnotation:
  assumes "wf_provisioner p" and "backoff_contract (hp_client p)"
  shows "costs P (createPVbyAnnotation p opts sc) 13"
proof -
  have "costs P (createPVbyAnnotation p opts sc) (2 + (1 + (10 + 0)))"
    unfolding createPVbyAnnotation_def Let_def
    by (intro costs_option costs_bind [OF costs_ensure_pvc] costs_bind [OF costs_waitBindPVC] costs_sum
        costs_bind [OF costs_release_and_bond [OF assms]] costs_return)
  then show ?thesis by simp
qed

lemma costs_createPVbyPOD:
  assumes "wf_provisioner p" and "backoff_contract (hp_client p)"
  shows "costs P (createPVbyPOD p opts sc) 19"
proof -
  have "costs P (createPVbyPOD p opts sc) (2 + Suc (1 + (5 + (10 + 0))))"
    unfolding createPVbyPOD_def Let_def create_pod_def
    by (intro costs_option costs_bind [OF costs_ensure_pvc] costs_call costs_split_pair
        costs_bind [OF costs_waitBindPVC] costs_sum costs_backoff [OF assms] costs_try
        costs_bind [OF costs_release_and_bond [OF assms]] costs_return)
  then show ?thesis by simp
qed

end
