(* ===== verification/Chain.thy ===== *)
theory Chain
  imports Safety
begin

text \<open>
  The whole log of a provisioning that succeeds: every call of the chain in its order, with the answers
  it needs, and nothing but refused deletions in between. \<open>whole_chain\<close> states it without phases; that
  each path of the protocol to its end has this form is proved by rule induction.
\<close>

section \<open>The parts of the chain\<close>

text \<open>The backing claim is in the cache, or it is not and is created.\<close>

definition claim_there :: "proto \<Rightarrow> call list \<Rightarrow> bool" where
  "claim_there x tr \<longleftrightarrow>
     (\<exists>c. tr = [ListerGetPVC (wanted_ns x) (wanted_name x) (Inr c)]) \<or>
     (\<exists>e c. IsNotFound e \<and>
        tr = [ListerGetPVC (wanted_ns x) (wanted_name x) (Inl e), CreatePVC (wanted_ns x) (wanted_claim x) (Inr c)])"

text \<open>The pod method creates its pod, which may be there already.\<close>

definition pod_there :: "proto \<Rightarrow> pod \<Rightarrow> call list \<Rightarrow> bool" where
  "pod_there x q tr \<longleftrightarrow>
     (if pr_method x = ByPod
      then \<exists>err. (err = None \<or> (\<exists>e. err = Some e \<and> IsAlreadyExists e)) \<and>
        tr = [CreatePod (wanted_ns x) (wanted_pod x) (q, err)]
      else tr = [])"

text \<open>It takes the pod away again, after any number of refusals.\<close>

definition pod_kept :: "pod \<Rightarrow> call \<Rightarrow> bool" where
  "pod_kept q c \<longleftrightarrow> (\<exists>e. \<not> IsNotFound e \<and> c = DeletePod (pod_Namespace q) (pod_Name q) (Some e))"

definition pod_gone :: "proto \<Rightarrow> pod \<Rightarrow> call list \<Rightarrow> bool" where
  "pod_gone x q tr \<longleftrightarrow>
     (if pr_method x = ByPod
      then \<exists>refused err. list_all (pod_kept q) refused \<and> (err = None \<or> (\<exists>e. err = Some e \<and> IsNotFound e)) \<and>
        tr = refused @ [DeletePod (pod_Namespace q) (pod_Name q) err]
      else tr = [])"

text \<open>The backing claim is deleted, after any number of refusals.\<close>

definition claim_kept :: "pvc \<Rightarrow> call \<Rightarrow> bool" where
  "claim_kept claim c \<longleftrightarrow> (\<exists>e. c = DeletePVC (pvc_Namespace claim) (pvc_Name claim) (Some ''Foreground'') (Some e))"

definition claim_gone :: "pvc \<Rightarrow> call list \<Rightarrow> bool" where
  "claim_gone claim tr \<longleftrightarrow>
     (\<exists>refused. list_all (claim_kept claim) refused \<and>
        tr = refused @ [DeletePVC (pvc_Namespace claim) (pvc_Name claim) (Some ''Foreground'') None])"

text \<open>From the first call to a bound claim that no pod of ours uses, its volume retained and itself unprotected.\<close>

definition bound_chain :: "proto \<Rightarrow> pvc \<Rightarrow> call list \<Rightarrow> bool" where
  "bound_chain x claim tr \<longleftrightarrow>
     (\<exists>there q pod events gone. tr = there @ pod @
          WatchPVC (wanted_ns x) (name_selector (wanted_name x)) (Inr events) # gone \<and>
        claim_there x there \<and> pod_there x q pod \<and> pod_gone x q gone \<and>
        waitBind_loop (wanted_name x) events = Inr claim)"

definition unprotected_chain :: "proto \<Rightarrow> pvc \<Rightarrow> call list \<Rightarrow> bool" where
  "unprotected_chain x claim tr \<longleftrightarrow>
     (\<exists>bound v c. bound_chain x claim bound \<and> tr = bound @
        [PatchPV (pvc_VolumeName claim) retain_patch (Inr v),
         PatchPVC (pvc_Namespace claim) (pvc_Name claim) (finalizers_patch (pvc_Finalizers claim)) (Inr c)])"

text \<open>All of it: the volume freed, the user's claim told of it and, where the class deletes, handed over.\<close>

definition whole_chain :: "proto \<Rightarrow> pvc \<Rightarrow> pv \<Rightarrow> call list \<Rightarrow> bool" where
  "whole_chain x claim v tr \<longleftrightarrow>
     (\<exists>start gone c end. unprotected_chain x claim start \<and> claim_gone claim gone \<and>
        tr = start @ gone @
          [PatchPV (pvc_VolumeName claim) unclaim_patch (Inr v),
           PatchPVC (wanted_ns x) (pvc_Name (opt_PVC (pr_opts x))) (bond_patch (pr_class x) (pv_Name v)) (Inr c)] @ end \<and>
        (if deletes_volume x
         then \<exists>u. end = [PatchPV (pv_Name v) (claim_ref_patch (opt_PVC (pr_opts x))) (Inr u)]
         else end = []))"

section \<open>Every path has its part\<close>

text \<open>While the pod is still there, refusals may come.\<close>

definition mounted_chain :: "proto \<Rightarrow> pod \<Rightarrow> pvc \<Rightarrow> call list \<Rightarrow> bool" where
  "mounted_chain x q claim tr \<longleftrightarrow>
     (\<exists>there pod events refused. tr = there @ pod @
          WatchPVC (wanted_ns x) (name_selector (wanted_name x)) (Inr events) # refused \<and>
        claim_there x there \<and> pr_method x = ByPod \<and> pod_there x q pod \<and> list_all (pod_kept q) refused \<and>
        waitBind_loop (wanted_name x) events = Inr claim)"

lemma mounted_chain_refused:
  assumes "mounted_chain x q claim tr" and "pod_kept q c"
  shows "mounted_chain x q claim (tr @ [c])"
proof -
  from assms(1) obtain a b events refused where
    tr: "tr = a @ b @ WatchPVC (wanted_ns x) (name_selector (wanted_name x)) (Inr events) # refused"
    and parts: "claim_there x a" "pr_method x = ByPod" "pod_there x q b" "list_all (pod_kept q) refused"
      "waitBind_loop (wanted_name x) events = Inr claim" unfolding mounted_chain_def by auto
  have "tr @ [c] = a @ b @ WatchPVC (wanted_ns x) (name_selector (wanted_name x)) (Inr events) # (refused @ [c])"
    by (simp add: tr)
  moreover have "list_all (pod_kept q) (refused @ [c])" using parts assms(2) by simp
  ultimately show ?thesis using parts unfolding mounted_chain_def by blast
qed

lemma mounted_chain_gone:
  assumes "mounted_chain x q claim tr" and "err = None \<or> (\<exists>e. err = Some e \<and> IsNotFound e)"
  shows "bound_chain x claim (tr @ [DeletePod (pod_Namespace q) (pod_Name q) err])"
proof -
  let ?c = "DeletePod (pod_Namespace q) (pod_Name q) err"
  from assms(1) obtain a b events refused where
    tr: "tr = a @ b @ WatchPVC (wanted_ns x) (name_selector (wanted_name x)) (Inr events) # refused"
    and parts: "claim_there x a" "pr_method x = ByPod" "pod_there x q b" "list_all (pod_kept q) refused"
      "waitBind_loop (wanted_name x) events = Inr claim" unfolding mounted_chain_def by auto
  with assms(2) have "pod_gone x q (refused @ [?c])" unfolding pod_gone_def by auto
  moreover have "tr @ [?c] = a @ b @ WatchPVC (wanted_ns x) (name_selector (wanted_name x)) (Inr events) # (refused @ [?c])"
    by (simp add: tr)
  ultimately show ?thesis using parts unfolding bound_chain_def by blast
qed

text \<open>What the log of a phase looks like; a run that gave up may look like anything.\<close>

fun chain_of :: "proto \<Rightarrow> phase \<Rightarrow> call list \<Rightarrow> bool" where
  "chain_of x Start tr = (tr = [])"
| "chain_of x Absent tr = (\<exists>e. IsNotFound e \<and> tr = [ListerGetPVC (wanted_ns x) (wanted_name x) (Inl e)])"
| "chain_of x Requested tr = claim_there x tr"
| "chain_of x (PodPlaced q) tr = (\<exists>a b. tr = a @ b \<and> claim_there x a \<and> pr_method x = ByPod \<and> pod_there x q b)"
| "chain_of x (Mounted q claim) tr = mounted_chain x q claim tr"
| "chain_of x (Claimed claim) tr = bound_chain x claim tr"
| "chain_of x (Retained claim) tr =
     (\<exists>a v. bound_chain x claim a \<and> tr = a @ [PatchPV (pvc_VolumeName claim) retain_patch (Inr v)])"
| "chain_of x (Unprotected claim) tr = (\<exists>a refused. unprotected_chain x claim a \<and> list_all (claim_kept claim) refused \<and> tr = a @ refused)"
| "chain_of x (ClaimGone claim) tr = (\<exists>a b. unprotected_chain x claim a \<and> claim_gone claim b \<and> tr = a @ b)"
| "chain_of x (Freed claim v) tr =
     (\<exists>a b. unprotected_chain x claim a \<and> claim_gone claim b \<and> tr = a @ b @ [PatchPV (pvc_VolumeName claim) unclaim_patch (Inr v)])"
| "chain_of x (Bonded claim v) tr =
     (\<exists>a b c. unprotected_chain x claim a \<and> claim_gone claim b \<and> tr = a @ b @
        [PatchPV (pvc_VolumeName claim) unclaim_patch (Inr v),
         PatchPVC (wanted_ns x) (pvc_Name (opt_PVC (pr_opts x))) (bond_patch (pr_class x) (pv_Name v)) (Inr c)])"
| "chain_of x (Settled claim v) tr =
     (\<exists>a b c u. unprotected_chain x claim a \<and> claim_gone claim b \<and> tr = a @ b @
        [PatchPV (pvc_VolumeName claim) unclaim_patch (Inr v),
         PatchPVC (wanted_ns x) (pvc_Name (opt_PVC (pr_opts x))) (bond_patch (pr_class x) (pv_Name v)) (Inr c),
         PatchPV (pv_Name v) (claim_ref_patch (opt_PVC (pr_opts x))) (Inr u)])"
| "chain_of x (Stopped ph) tr = True"

text \<open>The steps that end a list of refusals, and the wait.\<close>

lemma bound_chain_watch:
  assumes "waiting x ph" and "chain_of x ph tr" and "waitBind_loop (wanted_name x) events = Inr claim"
  shows "chain_of x (bound_phase ph claim)
    (tr @ [WatchPVC (wanted_ns x) (name_selector (wanted_name x)) (Inr events)])"
proof (cases ph)
  case Requested
  with assms have "claim_there x tr" "pr_method x = ByAnnotation" by simp_all
  with assms(3) Requested show ?thesis
    by (fastforce simp: bound_chain_def pod_there_def pod_gone_def)
next
  case (PodPlaced q)
  with assms obtain a b where parts: "tr = a @ b" "claim_there x a" "pr_method x = ByPod" "pod_there x q b" by auto
  let ?w = "WatchPVC (wanted_ns x) (name_selector (wanted_name x)) (Inr events)"
  have "tr @ [?w] = a @ b @ ?w # []" "list_all (pod_kept q) []" by (simp_all add: parts)
  with parts assms(3) have "mounted_chain x q claim (tr @ [?w])" unfolding mounted_chain_def by blast
  with PodPlaced show ?thesis by simp
qed (use assms(1) in auto)

lemma claim_gone_snoc:
  "list_all (claim_kept claim) refused \<Longrightarrow>
   claim_gone claim (refused @ [DeletePVC (pvc_Namespace claim) (pvc_Name claim) (Some ''Foreground'') None])"
  by (auto simp: claim_gone_def)

lemma chain_step:
  assumes "proto_step x ph c ph'" and "chain_of x ph tr"
  shows "chain_of x ph' (tr @ [c])"
  using assms
proof (cases rule: proto_step.cases)
  case (pod_created err q)
  with assms show ?thesis by (auto simp: pod_there_def)
next
  case (bound events claim)
  with assms show ?thesis by (simp add: bound_chain_watch)
next
  case (pod_removed err q claim)
  with assms show ?thesis by (simp add: mounted_chain_gone)
next
  case (pod_stays e q claim)
  with assms show ?thesis by (auto simp: pod_kept_def intro: mounted_chain_refused)
next
  case (unprotect claim b)
  with assms have "unprotected_chain x claim (tr @ [c])" by (auto simp: unprotected_chain_def)
  moreover have "list_all (claim_kept claim) []" "tr @ [c] = (tr @ [c]) @ []" by simp_all
  ultimately have "chain_of x (Unprotected claim) (tr @ [c])" unfolding chain_of.simps by blast
  with unprotect show ?thesis by simp
next
  case (delete_claim claim)
  with assms show ?thesis by (fastforce intro: claim_gone_snoc)
next
  case (claim_stays claim e)
  with assms obtain a refused where "unprotected_chain x claim a" "list_all (claim_kept claim) refused" "tr = a @ refused" by auto
  moreover from this claim_stays have "list_all (claim_kept claim) (refused @ [c])" "tr @ [c] = a @ (refused @ [c])"
    by (simp_all add: claim_kept_def)
  ultimately have "chain_of x (Unprotected claim) (tr @ [c])" unfolding chain_of.simps by blast
  with claim_stays show ?thesis by simp
qed (auto simp: claim_there_def unprotected_chain_def)

lemma chain_reach: "proto_reach x tr ph \<Longrightarrow> chain_of x ph tr"
  by (induction rule: proto_reach.induct) (simp, rule chain_step)

lemma chain_whole:
  assumes "proto_reach x tr (final_phase x claim v)"
  shows "whole_chain x claim v tr"
proof -
  let ?free = "PatchPV (pvc_VolumeName claim) unclaim_patch (Inr v)"
  let ?bond = "\<lambda>c. PatchPVC (wanted_ns x) (pvc_Name (opt_PVC (pr_opts x))) (bond_patch (pr_class x) (pv_Name v)) (Inr c)"
  let ?settle = "\<lambda>u. PatchPV (pv_Name v) (claim_ref_patch (opt_PVC (pr_opts x))) (Inr u)"
  from chain_reach [OF assms] obtain a b c rest where
    "unprotected_chain x claim a" "claim_gone claim b" "tr = a @ b @ [?free, ?bond c] @ rest"
    "if deletes_volume x then \<exists>u. rest = [?settle u] else rest = []"
    by (fastforce split: if_splits)
  then show ?thesis unfolding whole_chain_def by blast
qed

end
