(* ===== verification/ProvisionProps.thy ===== *)
theory ProvisionProps
  imports Chain
begin

text \<open>
  The properties of \<^verbatim>\<open>Provision\<close> and its helpers, for every environment: the protocol, its safety
  facts at the level of the code's log, results and errors, bounds, and the second attempt of the pod
  method.
\<close>

section \<open>Sample request\<close>

text \<open>The hybrid class of the README and a claim on it, with the node selected.\<close>

definition hybrid_class :: storage_class where
  "hybrid_class = \<lparr>sc_Name = ''hybrid'', sc_Provisioner = DriverName,
     sc_Parameters = [''storageClasses'' \<mapsto> ''proxmox,hcloud-volumes''],
     sc_ReclaimPolicy = Some ''Delete'', sc_AllowedTopologies = []\<rparr>"

definition user_claim :: pvc where
  "user_claim = zero_pvc\<lparr>pvc_APIVersion := ''v1'', pvc_Kind := ''PersistentVolumeClaim'',
     pvc_Name := ''storage-test-0'', pvc_Namespace := ''default'', pvc_UID := ''u-0'',
     pvc_AccessModes := [''ReadWriteOnce'']\<rparr>"

definition sample_opts :: ProvisionOptions where
  "sample_opts = \<lparr>opt_StorageClass = Some hybrid_class, opt_PVName = ''pvc-1'',
     opt_PVC = user_claim, opt_SelectedNode = Some sample_node\<rparr>"

lemma sample_node_name: "node_name sample_node = ''node-1''"
  by (simp add: sample_node_def)

lemma sample_requested: "requested_classes sample_opts = Some [''proxmox'', ''hcloud-volumes'']"
  by (simp add: requested_classes_def sample_opts_def hybrid_class_def)

lemma sample_chosen: "chosen_class (sample_provisioner c m) sample_opts = Some proxmox_class"
proof -
  have "cache_ok (sample_provisioner c m) [''proxmox'', ''hcloud-volumes'']"
    using sample_cache_ok [of c m] by simp
  from class_loop_first [OF this, of sample_csi_node sample_node]
  have "getStorageClassFromNode (sample_provisioner c m) (Some sample_node) [''proxmox'', ''hcloud-volumes'']
      = Done (Inr proxmox_class)"
    by (simp add: getStorageClassFromNode_def first_eligible_def stored_class_def sample_classes_def
        sample_fits sample_csi_nodes_def sample_node_name)
  then show ?thesis
    unfolding chosen_class_def sample_requested by (simp add: sample_opts_def)
qed

definition released_pv :: pv where
  "released_pv = sample_pv\<lparr>pv_ResourceVersion := []\<rparr>"

definition protection_dropped :: patch_body where
  "protection_dropped = finalizers_patch (pvc_Finalizers sample_claim)"

text \<open>The annotation run of the sample request against the sample client.\<close>

definition sample_calls :: "call list" where
  "sample_calls =
     [ListerGetPVC ''default'' ''pvc-1'' (Inl (NotFound ''not in cache'')),
      CreatePVC ''default'' (annotated_pvc sample_opts proxmox_class sample_node)
        (Inr (annotated_pvc sample_opts proxmox_class sample_node)),
      WatchPVC ''default'' (name_selector ''pvc-1'') (Inr sample_events),
      PatchPV ''pv-1'' retain_patch (Inr sample_pv),
      PatchPVC ''default'' ''pvc-1'' protection_dropped (Inr sample_claim),
      DeletePVC ''default'' ''pvc-1'' (Some ''Foreground'') None,
      PatchPV ''pv-1'' unclaim_patch (Inr sample_pv),
      PatchPVC ''default'' ''storage-test-0'' (bond_patch proxmox_class ''pv-1'') (Inr sample_claim),
      PatchPV ''pv-1'' (claim_ref_patch user_claim) (Inr sample_pv)]"

lemma sample_backoff: "hp_backoff (sample_provisioner c m) = \<lparr>bo_Duration = 10000000000, bo_Factor = 1, bo_Steps = 5\<rparr>"
  by (simp add: sample_provisioner_def NewProvisioner_def defaultCreateProvisionedPVInterval_def
      defaultCreateProvisionedPVRetryCount_def)

lemma sample_claim_sel:
  "pvc_Namespace sample_claim = ''default''" "pvc_Name sample_claim = ''pvc-1''"
  "pvc_VolumeName sample_claim = ''pv-1''"
  "waitBind_loop ''pvc-1'' sample_events = Inr sample_claim"
  by (simp_all add: sample_claim_def sample_events_def ClaimBound_def)

text \<open>What a run of the sample request unfolds to, whatever the client.\<close>

lemma sample_opts_sel:
  "opt_SelectedNode sample_opts = Some sample_node" "opt_PVName sample_opts = ''pvc-1''"
  "opt_PVC sample_opts = user_claim" "pvc_Namespace user_claim = ''default''" "pvc_Name user_claim = ''storage-test-0''"
  by (simp_all add: sample_opts_def user_claim_def)

lemma sample_request:
  "pvc_Name (annotated_pvc sample_opts proxmox_class sample_node) = ''pvc-1''"
  "pvc_Namespace (annotated_pvc sample_opts proxmox_class sample_node) = ''default''"
  by (simp_all add: annotated_pvc_def requested_pvc_def sample_opts_sel)

lemma sample_Provision:
  "Provision (sample_provisioner c ''auto'') sample_opts =
     createPVbyAnnotation (sample_provisioner c ''auto'') sample_opts proxmox_class
       \<bind> (\<lambda>r. State_Monad.return (provision_result_of r))"
proof -
  have "creation_kind (sample_provisioner c ''auto'') = ByAnnotation"
    by (simp add: creation_kind_def sample_provisioner_def NewProvisioner_def methodDefault_def methodPod_def)
  then show ?thesis unfolding Provision_chosen [OF wf_sample_provisioner sample_chosen] by simp
qed

lemma sample_retry:
  "cl_ExponentialBackoff c = (\<lambda>b cond. retry (nat (bo_Steps b)) cond) \<Longrightarrow>
   cl_ExponentialBackoff c (hp_backoff (sample_provisioner c m)) cond = retry 5 cond"
  by (simp add: sample_backoff)

lemma sample_client_backoff: "cl_ExponentialBackoff calm_client = (\<lambda>b cond. retry (nat (bo_Steps b)) cond)"
  by (simp add: calm_client_def)

lemmas sample_unfolds =
  sample_Provision createPVbyAnnotation_def sample_opts_sel option.case Let_def ensure_pvc_def waitBindPVC_def
  release_and_bond_def releasePV_def bondPVC_def try_delete_pvc_def sample_request call_defs

lemmas sample_values =
  IsNotFound_def sample_claim_sel retry_numeral provision_result_of_def released_pv_def protection_dropped_def
  sample_calls_def proxmox_class_def PersistentVolumeReclaimDelete_def sample_pv_def

lemma sample_release:
  "run_state (release_and_bond (sample_provisioner sample_client m) sample_opts proxmox_class sample_claim)
     \<lparr>env = (), calls = cs\<rparr> = (Inr sample_pv, \<lparr>env = (), calls = cs @ drop 3 sample_calls\<rparr>)"
  unfolding release_and_bond_def releasePV_def bondPVC_def try_delete_pvc_def call_defs
  by (simp add: sample_claim_sel sample_backoff sample_client_def retry_numeral protection_dropped_def
      sample_calls_def proxmox_class_def PersistentVolumeReclaimDelete_def sample_pv_def
      sample_opts_def user_claim_def)

lemma sample_run:
  "run_state (Provision (sample_provisioner sample_client ''auto'') sample_opts) sample_world
     = (Provisioned (Some released_pv) ProvisioningFinished None, \<lparr>env = (), calls = sample_calls\<rparr>)"
  unfolding sample_unfolds
  by (simp add: sample_retry [OF sample_client_backoff])
    (simp add: sample_client_def sample_world_def sample_values)

lemma sample_provision:
  "provision_calls (sample_provisioner sample_client ''auto'') sample_opts sample_world = sample_calls"
  "provision_returns (sample_provisioner sample_client ''auto'') sample_opts sample_world
     = Provisioned (Some released_pv) ProvisioningFinished None"
  by (simp_all add: provision_calls_def provision_returns_def sample_run)
    (simp add: sample_world_def)

lemma sample_ok:
  "wf_provisioner (sample_provisioner sample_client m)"
  "backoff_contract (hp_client (sample_provisioner sample_client m))"
  by (simp_all add: wf_sample_provisioner sample_client_contract)

section \<open>The protocol and its safety\<close>

text \<open>
  C10: \<^verbatim>\<open>Provision\<close> implements the provisioning protocol, for every environment: either no class is
  chosen and no call is made, or its calls are a run of the protocol for the chosen class and the
  selected node, which ends in a phase that agrees with the result (bonded or settled exactly on
  success, given up on an error).
\<close>

theorem Provision_follows_protocol:
  assumes "wf_provisioner p" and "backoff_contract (hp_client p)"
  shows "(chosen_class p opts = None \<and> provision_calls p opts w = []) \<or>
     (\<exists>sc n ph r. chosen_class p opts = Some sc \<and> opt_SelectedNode opts = Some n \<and>
        proto_reach (protocol_of p opts sc n) (provision_calls p opts w) ph \<and>
        run_outcome (protocol_of p opts sc n) r ph \<and>
        provision_returns p opts w = provision_result_of r)"
  using assms by (rule Provision_cases [of p opts w]) blast+

theorem Provision_follows_protocol_witness:
  "\<exists>n ph. opt_SelectedNode sample_opts = Some n \<and>
     proto_reach (protocol_of (sample_provisioner sample_client ''auto'') sample_opts proxmox_class n) sample_calls ph"
  using Provision_follows_protocol [OF sample_ok, of "''auto''" sample_opts sample_world]
  by (simp add: sample_chosen sample_provision) blast

text \<open>
  C13: no data is lost with the backing claim: whenever \<^verbatim>\<open>Provision\<close> asks to delete a claim, it was
  the bound claim its watch delivered, its volume had before been set to the reclaim policy Retain,
  and the patch of its finalizers had succeeded.
\<close>

theorem Provision_deletes_after_retain:
  assumes "wf_provisioner p" and "backoff_contract (hp_client p)"
    and "provision_calls p opts w = a @ DeletePVC ns name pol r # b"
  shows "\<exists>(claim :: pvc). ns = pvc_Namespace claim \<and> name = pvc_Name claim \<and> pvc_Phase claim = ClaimBound \<and>
     (\<exists>events. WatchPVC (pvc_Namespace (opt_PVC opts)) (name_selector (opt_PVName opts)) (Inr events) \<in> set a \<and>
        (\<exists>e\<in>set (received events). ev_Type e = Modified \<and> ev_Object e = Some claim)) \<and>
     (\<exists>v. PatchPV (pvc_VolumeName claim) retain_patch (Inr v) \<in> set a) \<and>
     (\<exists>c. PatchPVC ns name (finalizers_patch (pvc_Finalizers claim)) (Inr c) \<in> set a)"
  using assms(1,2)
proof (cases rule: Provision_cases [of p opts w])
  case idle
  with assms(3) show ?thesis by simp
next
  case (ran sc n ph r0)
  from ran(3) assms(3)
  have "proto_reach (protocol_of p opts sc n) (a @ DeletePVC ns name pol r # b) ph" by simp
  from delete_after_retain [OF this] obtain claim where
    c: "ns = pvc_Namespace claim" "name = pvc_Name claim"
      "bound_by_watch (protocol_of p opts sc n) a claim"
      "\<exists>v. PatchPV (pvc_VolumeName claim) retain_patch (Inr v) \<in> set a"
      "\<exists>c. PatchPVC ns name (finalizers_patch (pvc_Finalizers claim)) (Inr c) \<in> set a" by blast
  from c(3) obtain events where
    "WatchPVC (pvc_Namespace (opt_PVC opts)) (name_selector (opt_PVName opts)) (Inr events) \<in> set a"
    and loop: "waitBind_loop (opt_PVName opts) events = Inr claim"
    by (auto simp: bound_by_watch_def wanted_ns_def wanted_name_def)
  moreover from binding.loop_accepted [OF loop]
  obtain e where "e \<in> set (received events)" "ev_Type e = Modified" "ev_Object e = Some claim"
    by (auto simp: bind_accept_Some)
  ultimately show ?thesis using c waitBind_bound [OF loop] by blast
qed

theorem Provision_deletes_after_retain_witness:
  "\<exists>v (claim :: pvc). pvc_Name claim = ''pvc-1'' \<and> pvc_Phase claim = ClaimBound \<and>
     PatchPV (pvc_VolumeName claim) retain_patch (Inr v) \<in> set (take 5 sample_calls)"
proof -
  have "provision_calls (sample_provisioner sample_client ''auto'') sample_opts sample_world
      = take 5 sample_calls @ DeletePVC ''default'' ''pvc-1'' (Some ''Foreground'') None # drop 6 sample_calls"
    by (simp add: sample_provision sample_calls_def)
  from Provision_deletes_after_retain [OF sample_ok this] show ?thesis by metis
qed

text \<open>
  A volume is freed of its claim only when the claim is gone: a patch that drops the claim
  reference is preceded by a successful deletion of the bound claim of that volume.
\<close>

theorem Provision_frees_after_delete:
  assumes "wf_provisioner p" and "backoff_contract (hp_client p)"
    and "provision_calls p opts w = a @ PatchPV name unclaim_patch r # b"
  shows "\<exists>(claim :: pvc). name = pvc_VolumeName claim \<and>
     DeletePVC (pvc_Namespace claim) (pvc_Name claim) (Some ''Foreground'') None \<in> set a"
  using assms(1,2)
proof (cases rule: Provision_cases [of p opts w])
  case idle
  with assms(3) show ?thesis by simp
next
  case (ran sc n ph r0)
  from ran(3) assms(3)
  have "proto_reach (protocol_of p opts sc n) (a @ PatchPV name unclaim_patch r # b) ph" by simp
  from unclaim_after_delete [OF this] show ?thesis by blast
qed

theorem Provision_frees_after_delete_witness:
  "\<exists>(claim :: pvc). pvc_VolumeName claim = ''pv-1'' \<and>
     DeletePVC (pvc_Namespace claim) (pvc_Name claim) (Some ''Foreground'') None \<in> set (take 6 sample_calls)"
proof -
  have "provision_calls (sample_provisioner sample_client ''auto'') sample_opts sample_world
      = take 6 sample_calls @ PatchPV ''pv-1'' unclaim_patch (Inr sample_pv) # drop 7 sample_calls"
    by (simp add: sample_provision sample_calls_def)
  from Provision_frees_after_delete [OF sample_ok this] show ?thesis by metis
qed

text \<open>
  The volume gets the policy Delete and the reference to the user's claim only when the chosen
  class reclaims by Delete, after the volume lost its old claim reference and the user's claim was
  patched to name it.
\<close>

theorem Provision_hands_over_last:
  assumes "wf_provisioner p" and "backoff_contract (hp_client p)"
    and "provision_calls p opts w = a @ PatchPV name (claim_ref_patch c) r # b"
  shows "\<exists>sc v vol c'. chosen_class p opts = Some sc \<and>
     sc_ReclaimPolicy sc = Some PersistentVolumeReclaimDelete \<and> name = pv_Name v \<and>
     PatchPV vol unclaim_patch (Inr v) \<in> set a \<and>
     PatchPVC (pvc_Namespace (opt_PVC opts)) (pvc_Name (opt_PVC opts)) (bond_patch sc name) (Inr c') \<in> set a"
  using assms(1,2)
proof (cases rule: Provision_cases [of p opts w])
  case idle
  with assms(3) show ?thesis by simp
next
  case (ran sc n ph r0)
  from ran(3) assms(3)
  have "proto_reach (protocol_of p opts sc n) (a @ PatchPV name (claim_ref_patch c) r # b) ph" by simp
  from claim_ref_after_bond [OF this] ran(1) show ?thesis
    by (auto simp: deletes_volume_def wanted_ns_def)
qed

theorem Provision_hands_over_last_witness:
  "\<exists>c'. PatchPVC ''default'' ''storage-test-0'' (bond_patch proxmox_class ''pv-1'') (Inr c') \<in> set (take 8 sample_calls)"
proof -
  have "provision_calls (sample_provisioner sample_client ''auto'') sample_opts sample_world
      = take 8 sample_calls @ PatchPV ''pv-1'' (claim_ref_patch user_claim) (Inr sample_pv) # []"
    by (simp add: sample_provision sample_calls_def)
  from Provision_hands_over_last [OF sample_ok this]
  obtain sc c' where "chosen_class (sample_provisioner sample_client ''auto'') sample_opts = Some sc"
    "PatchPVC (pvc_Namespace (opt_PVC sample_opts)) (pvc_Name (opt_PVC sample_opts))
       (bond_patch sc ''pv-1'') (Inr c') \<in> set (take 8 sample_calls)"
    by blast
  moreover have "pvc_Namespace (opt_PVC sample_opts) = ''default''" "pvc_Name (opt_PVC sample_opts) = ''storage-test-0''"
    by (simp_all add: sample_opts_def user_claim_def)
  ultimately show ?thesis by (auto simp: sample_chosen)
qed

text \<open>
  C15: \<^verbatim>\<open>Provision\<close> returns a volume only as a final success without an error and without a
  resource version, and then its log is the whole chain and nothing else, in this order: the backing claim found
  in the cache or created, the pod created where the method uses one, a watch that delivers the claim as
  bound, the pod deleted, the volume of that claim set to Retain, the claim's finalizers patched, the
  claim deleted, the claim reference of the volume dropped (the returned volume is that answer), the user's
  claim patched to name it, and, for a class that reclaims by Delete, the volume handed to the user's
  claim. Each of these calls went through; only refused deletions may precede the two deletions.
\<close>

theorem Provision_success:
  assumes "wf_provisioner p" and "backoff_contract (hp_client p)"
    and "provision_returns p opts w = Provisioned (Some v) st err"
  shows "st = ProvisioningFinished \<and> err = None \<and> pv_ResourceVersion v = [] \<and>
    (\<exists>sc n claim v0. chosen_class p opts = Some sc \<and> opt_SelectedNode opts = Some n \<and>
       v = v0\<lparr>pv_ResourceVersion := []\<rparr> \<and>
       whole_chain (protocol_of p opts sc n) claim v0 (provision_calls p opts w))"
  using assms(1,2)
proof (cases rule: Provision_ends [of p opts w])
  case idle
  with assms(3) show ?thesis by blast
next
  case (failure sc n ph e)
  with assms(3) show ?thesis by simp
next
  case (success sc n claim v0)
  with chain_whole [OF success(3)] assms(3) show ?thesis by auto
qed

theorem Provision_success_witness:
  "pv_ResourceVersion released_pv = [] \<and>
   (\<exists>claim v0. whole_chain (protocol_of (sample_provisioner sample_client ''auto'') sample_opts proxmox_class sample_node)
      claim v0 sample_calls)"
  using Provision_success [OF sample_ok sample_provision(2)]
  unfolding sample_provision sample_chosen sample_opts_sel by blast

text \<open>
  A provisioning that fails leaves no volume marked for deletion: among the calls of a run that
  returns an error, no patch with the policy Delete and the user's claim has succeeded.
\<close>

theorem Provision_failure_keeps_volume:
  assumes "wf_provisioner p" and "backoff_contract (hp_client p)"
    and "provision_returns p opts w = Provisioned None st err"
  shows "PatchPV name (claim_ref_patch c) (Inr v) \<notin> set (provision_calls p opts w)"
  using assms(1,2)
proof (cases rule: Provision_ends [of p opts w])
  case (failure sc n ph e)
  then show ?thesis using handed_over_last [OF failure(3)] by (auto simp: given_up_def)
qed (use assms(3) in simp_all)

text \<open>A client whose patches of claims are refused, for the failing run.\<close>

definition refusing_client :: "unit client" where
  "refusing_client = sample_client\<lparr>
     cl_PatchPVC := (\<lambda>ns name b e. (Inl (OtherApiError ''conflict''), e))\<rparr>"

lemma refusing_contract: "backoff_contract (hp_client (sample_provisioner refusing_client m))"
  by (simp, rule retry_contract) (simp add: refusing_client_def sample_client_def)

lemma refusing_run:
  "provision_returns (sample_provisioner refusing_client ''auto'') sample_opts sample_world
     = Provisioned None ProvisioningFinished
         (Some (failed ''failed to remove finalizer from persistentvolumeClaim: %v'' (OtherApiError ''conflict'')))"
proof -
  have sel: "opt_SelectedNode sample_opts = Some sample_node"
    "pvc_Name (annotated_pvc sample_opts proxmox_class sample_node) = ''pvc-1''"
    "pvc_Namespace (annotated_pvc sample_opts proxmox_class sample_node) = ''default''"
    by (simp_all add: annotated_pvc_def requested_pvc_def sample_opts_def user_claim_def)
  have kind: "creation_kind (sample_provisioner refusing_client ''auto'') = ByAnnotation"
    by (simp add: creation_kind_def sample_provisioner_def NewProvisioner_def methodDefault_def methodPod_def)
  show ?thesis
    unfolding provision_returns_def Provision_chosen [OF wf_sample_provisioner sample_chosen] kind
      createPVbyAnnotation_def sel option.case Let_def ensure_pvc_def waitBindPVC_def
      release_and_bond_def releasePV_def call_defs
    by (simp add: sample_client_def refusing_client_def sample_world_def IsNotFound_def sample_claim_sel
        provision_result_of_def)
qed

theorem Provision_failure_keeps_volume_witness:
  "PatchPV ''pv-1'' (claim_ref_patch user_claim) (Inr sample_pv) \<notin>
     set (provision_calls (sample_provisioner refusing_client ''auto'') sample_opts sample_world)"
  by (rule Provision_failure_keeps_volume [OF wf_sample_provisioner refusing_contract refusing_run])

text \<open>
  The only claim \<^verbatim>\<open>Provision\<close> deletes is the backing claim, named after the volume in the
  user's namespace, provided the API server honours the field selector of the watch.
\<close>

definition selector_honoured :: "call list \<Rightarrow> bool" where
  "selector_honoured tr \<longleftrightarrow>
     (\<forall>ns name events e obj. WatchPVC ns (name_selector name) (Inr events) \<in> set tr \<longrightarrow>
        e \<in> set (received events) \<longrightarrow> ev_Object e = Some obj \<longrightarrow>
        pvc_Namespace obj = ns \<and> pvc_Name obj = name)"

theorem Provision_deletes_own_claim:
  assumes "wf_provisioner p" and "backoff_contract (hp_client p)"
    and "selector_honoured (provision_calls p opts w)"
    and "DeletePVC ns name pol r \<in> set (provision_calls p opts w)"
  shows "ns = pvc_Namespace (opt_PVC opts) \<and> name = opt_PVName opts"
  using assms(1,2)
proof (cases rule: Provision_cases [of p opts w])
  case idle
  with assms(4) show ?thesis by simp
next
  case (ran sc n ph r0)
  from assms(4) obtain a b where ab: "provision_calls p opts w = a @ DeletePVC ns name pol r # b"
    by (meson split_list)
  with ran(3) have "proto_reach (protocol_of p opts sc n) (a @ DeletePVC ns name pol r # b) ph" by simp
  from delete_after_retain [OF this] obtain claim where
    c: "ns = pvc_Namespace claim" "name = pvc_Name claim"
      "bound_by_watch (protocol_of p opts sc n) a claim" by blast
  then obtain events where
    "WatchPVC (pvc_Namespace (opt_PVC opts)) (name_selector (opt_PVName opts)) (Inr events) \<in> set a"
    and loop: "waitBind_loop (opt_PVName opts) events = Inr claim"
    by (auto simp: bound_by_watch_def wanted_ns_def wanted_name_def)
  with ab have "WatchPVC (pvc_Namespace (opt_PVC opts)) (name_selector (opt_PVName opts)) (Inr events)
      \<in> set (provision_calls p opts w)" by simp
  moreover from binding.loop_accepted [OF loop]
  obtain e where "e \<in> set (received events)" "ev_Object e = Some claim" by (auto simp: bind_accept_Some)
  ultimately show ?thesis using assms(3) c unfolding selector_honoured_def by metis
qed

theorem Provision_deletes_own_claim_witness:
  "DeletePVC ''default'' ''pvc-1'' (Some ''Foreground'') None \<in> set sample_calls \<and>
   pvc_Namespace (opt_PVC sample_opts) = ''default'' \<and> opt_PVName sample_opts = ''pvc-1''"
proof -
  have del: "DeletePVC ''default'' ''pvc-1'' (Some ''Foreground'') None \<in> set sample_calls"
    by (simp add: sample_calls_def)
  have "selector_honoured sample_calls"
    by (auto simp: selector_honoured_def sample_calls_def name_selector_def sample_events_def sample_claim_def)
  with del Provision_deletes_own_claim [OF sample_ok, of "''auto''" sample_opts sample_world
      "''default''" "''pvc-1''" "Some ''Foreground''" None]
  show ?thesis by (simp add: sample_provision)
qed

text \<open>
  C23: the claim \<^verbatim>\<open>Provision\<close> creates is the one the user asked for, on the chosen class: named
  after the volume, in the user's namespace, with the user's access modes, resources and volume mode,
  and, in the annotation method only, marked for the class's provisioner and the selected node.
\<close>

theorem Provision_creates_mirror_claim:
  assumes "wf_provisioner p" and "backoff_contract (hp_client p)"
    and "CreatePVC ns c r \<in> set (provision_calls p opts w)"
  shows "\<exists>sc n. chosen_class p opts = Some sc \<and> opt_SelectedNode opts = Some n \<and>
     ns = pvc_Namespace (opt_PVC opts) \<and> pvc_Namespace c = ns \<and> pvc_Name c = opt_PVName opts \<and>
     pvc_StorageClassName c = Some (sc_Name sc) \<and> pvc_AccessModes c = pvc_AccessModes (opt_PVC opts) \<and>
     pvc_Resources c = pvc_Resources (opt_PVC opts) \<and> pvc_VolumeMode c = pvc_VolumeMode (opt_PVC opts) \<and>
     pvc_Annotations c annSelectedNode = (if hp_method p = ''pod'' then None else Some (node_name n)) \<and>
     pvc_Annotations c annStorageProvisioner = (if hp_method p = ''pod'' then None else Some (sc_Provisioner sc))"
  using assms(1,2)
proof (cases rule: Provision_cases [of p opts w])
  case idle
  with assms(3) show ?thesis by simp
next
  case (ran sc n ph r0)
  from created_claims [OF ran(3) assms(3)] have
    "ns = pvc_Namespace (opt_PVC opts)" "c = wanted_claim (protocol_of p opts sc n)"
    by (simp_all add: wanted_ns_def)
  with ran(1,2) show ?thesis
    by (auto simp: wanted_claim_def creation_kind_def methodPod_def annotated_pvc_def requested_pvc_def
        zero_pvc_def annSelectedNode_def annStorageProvisioner_def annBetaStorageProvisioner_def)
qed

theorem Provision_creates_mirror_claim_witness:
  "pvc_StorageClassName (annotated_pvc sample_opts proxmox_class sample_node) = Some ''proxmox''"
proof -
  have "CreatePVC ''default'' (annotated_pvc sample_opts proxmox_class sample_node)
        (Inr (annotated_pvc sample_opts proxmox_class sample_node))
      \<in> set (provision_calls (sample_provisioner sample_client ''auto'') sample_opts sample_world)"
    by (simp add: sample_provision sample_calls_def)
  from Provision_creates_mirror_claim [OF sample_ok this] obtain sc where
    "chosen_class (sample_provisioner sample_client ''auto'') sample_opts = Some sc"
    "pvc_StorageClassName (annotated_pvc sample_opts proxmox_class sample_node) = Some (sc_Name sc)" by blast
  moreover from this(1) have "sc = proxmox_class" by (simp add: sample_chosen)
  ultimately show ?thesis by (simp add: proxmox_class_def)
qed

section \<open>Errors and panics\<close>

text \<open>
  C24: \<^verbatim>\<open>Provision\<close> asks for rescheduling exactly when no backing class could be chosen for the
  selected node; every other error is final, and nothing was called before a rescheduling.
\<close>

theorem Provision_reschedules:
  assumes "wf_provisioner p"
  shows "(\<exists>err. run_state (Provision p opts) w = (Provisioned None ProvisioningReschedule (Some err), w)) \<longleftrightarrow>
     (\<exists>names err. requested_classes opts = Some names \<and>
        getStorageClassFromNode p (opt_SelectedNode opts) names = Done (Inl err))"
proof (cases "chosen_class p opts")
  case None
  then show ?thesis
    by (auto simp: Provision_def chosen_class_def requested_classes_def
        split: option.splits run.splits sum.splits)
next
  case (Some sc)
  have "fst (run_state (Provision p opts) w) \<noteq> Provisioned None ProvisioningReschedule (Some err)" for err
    unfolding Provision_chosen [OF assms Some]
    by (auto simp: provision_result_of_def split: prod.splits run.splits sum.splits)
  then show ?thesis
    using Some by (auto simp: chosen_class_def split: option.splits run.splits sum.splits) (metis fst_conv)+
qed

theorem Provision_reschedules_witness:
  "\<exists>err. run_state (Provision (sample_provisioner sample_client ''pod'')
            (sample_opts\<lparr>opt_StorageClass := Some (hybrid_class\<lparr>sc_Parameters := [''storageClasses'' \<mapsto> ''missing'']\<rparr>)\<rparr>))
            sample_world
     = (Provisioned None ProvisioningReschedule (Some err), sample_world)"
  by (subst Provision_reschedules [OF wf_sample_provisioner])
    (simp add: requested_classes_def getStorageClassFromNode_def sample_classes_def sample_csi_nodes_def
      sample_opts_def sample_node_def)

text \<open>
  Without a selected node, as for a class that binds immediately, \<^verbatim>\<open>Provision\<close> panics on the nil
  node instead of returning an error.
\<close>

theorem Provision_nil_node_panics:
  assumes "requested_classes opts = Some names" and "opt_SelectedNode opts = None"
  shows "run_state (Provision p opts) w = (ProvisionPanic nil_panic, w)"
  using assms
  by (auto simp: Provision_def requested_classes_def getStorageClassFromNode_def split: option.splits)

theorem Provision_nil_node_panics_witness:
  "run_state (Provision (sample_provisioner sample_client ''auto'') (sample_opts\<lparr>opt_SelectedNode := None\<rparr>))
     sample_world = (ProvisionPanic nil_panic, sample_world)"
  by (rule Provision_nil_node_panics [of _ "[''proxmox'', ''hcloud-volumes'']"])
    (simp_all add: requested_classes_def sample_opts_def hybrid_class_def)

lemma no_panic:
  assumes "wf_provisioner p" and "backoff_contract (hp_client p)"
    and "opt_SelectedNode opts = Some n" and "\<forall>name. hp_scLister p name \<noteq> Inr None"
  shows "provision_returns p opts w \<noteq> ProvisionPanic m"
  using assms(1,2)
proof (cases rule: Provision_cases [of p opts w])
  case idle
  have "getStorageClassFromNode p (opt_SelectedNode opts) names \<noteq> Panic m" for names m
    using class_loop_no_panic [of names p] assms(3,4)
    by (auto simp: getStorageClassFromNode_def split: sum.split option.split) (metis run.distinct(1))
  with idle(1) show ?thesis
    by (auto simp: provision_returns_def Provision_def chosen_class_def requested_classes_def
        split: option.splits run.splits sum.splits)
next
  case (ran sc k ph r)
  then show ?thesis
    by (auto simp: run_outcome_def provision_result_of_def split: run.splits sum.splits)
qed

text \<open>
  C21: with a selected node, and a cache that hands out no nil class, \<^verbatim>\<open>Provision\<close> never panics,
  whatever the API server answers.
\<close>

theorem Provision_no_panic:
  assumes "wf_provisioner p" and "backoff_contract (hp_client p)"
    and "opt_SelectedNode opts = Some n" and "\<forall>name. hp_scLister p name \<noteq> Inr None"
  shows "provision_returns p opts w \<noteq> ProvisionPanic m"
  using assms by (rule no_panic)

theorem Provision_no_panic_witness:
  "provision_returns (sample_provisioner sample_client ''pod'') sample_opts sample_world \<noteq> ProvisionPanic nil_panic"
  by (rule Provision_no_panic [OF sample_ok, of _ sample_node])
    (simp_all add: sample_opts_def sample_classes_def)

section \<open>Bounds\<close>

text \<open>
  C20: a run of \<^verbatim>\<open>Provision\<close> makes at most 13 calls in the annotation method and 19 in the pod
  method, whatever the answers are.
\<close>

theorem Provision_call_bound:
  assumes "wf_provisioner p" and "backoff_contract (hp_client p)"
  shows "length (provision_calls p opts w) \<le> (if hp_method p = ''pod'' then 19 else 13)"
proof (cases "chosen_class p opts")
  case None
  from Provision_not_chosen [OF this, of w] show ?thesis by (auto simp: provision_calls_def)
next
  case (Some sc)
  have "costs (\<lambda>_. True) (Provision p opts) (if hp_method p = ''pod'' then 19 else 13)"
    unfolding Provision_chosen [OF assms(1) Some]
    using costs_bind [OF costs_createPVbyAnnotation [OF assms, of _ opts sc] costs_return [where k = 0]]
      costs_bind [OF costs_createPVbyPOD [OF assms, of _ opts sc] costs_return [where k = 0]]
    by (auto simp: creation_kind_def methodPod_def)
  then have "length (calls (snd (run_state (Provision p opts) w)))
      \<le> length (calls w) + (if hp_method p = ''pod'' then 19 else 13)" by (simp add: costs_def split del: if_split)
  then show ?thesis unfolding provision_calls_def length_drop by linarith
qed

theorem Provision_call_bound_witness:
  "length (provision_calls (sample_provisioner sample_client ''auto'') sample_opts sample_world) \<le> 13"
  using Provision_call_bound [OF sample_ok, of "''auto''" sample_opts sample_world]
  by (simp add: sample_provisioner_def NewProvisioner_def methodDefault_def)

section \<open>The second attempt of the pod method\<close>

text \<open>
  When the provisioning pod exists already, because an earlier attempt left it, the client answers
  with an empty pod and the error; deleting a pod without a name is refused. Both are documented
  behaviour of \<^verbatim>\<open>client-go\<close>, stated as the hypotheses of \<open>pod_left_behind\<close>.
\<close>

definition pod_left_behind :: "'e client \<Rightarrow> bool" where
  "pod_left_behind c \<longleftrightarrow>
     (\<forall>ns q e. \<exists>m. fst (cl_CreatePod c ns q e) = (zero_pod, Some (AlreadyExists m))) \<and>
     (\<forall>e. \<exists>err. fst (cl_DeletePod c [] [] e) = Some err \<and> \<not> IsNotFound err)"

lemma retry_exhausted:
  assumes "\<And>w. \<exists>w'. run_state cond w = (Inr False, w')"
  shows "\<exists>w'. run_state (retry n cond) w = (Inl WaitTimeout, w')"
proof (induction n arbitrary: w)
  case 0
  show ?case by simp
next
  case (Suc n)
  obtain w1 where "run_state cond w = (Inr False, w1)" using assms by blast
  with Suc [of w1] show ?case by simp
qed

lemma pod_retry_fails:
  assumes "wf_provisioner p" and "backoff_contract (hp_client p)" and "pod_left_behind (hp_client p)"
    and "opt_SelectedNode opts = Some n"
  shows "fst (run_state (createPVbyPOD p opts sc) w) \<noteq> Done (Inr v)"
proof -
  let ?c = "hp_client p" and ?q = "requested_pvc opts sc"
  have try_fails: "\<exists>w'. run_state (try_delete_pod p zero_pod) w = (Inr False, w')" for w
  proof -
    from assms(3) obtain err where "fst (cl_DeletePod ?c [] [] (env w)) = Some err" "\<not> IsNotFound err"
      unfolding pod_left_behind_def by metis
    then show ?thesis by (simp add: try_delete_pod_def delete_pod_def zero_pod_def)
  qed
  have after: "fst (run_state (retry k (try_delete_pod p zero_pod) \<bind> (\<lambda>r. case r of
        Inl err \<Rightarrow> State_Monad.return (Done (Inl err)) | Inr u \<Rightarrow> f u)) w) \<noteq> Done (Inr v)"
    for k w and f :: "unit \<Rightarrow> ('a world, (go_error + pv) run) state"
    using retry_exhausted [of "try_delete_pod p zero_pod" k w, OF try_fails] by auto
  obtain err w1 where 1: "run_state (ensure_pvc p ?q) w = (err, w1)" by (metis prod.exhaust)
  obtain m w2 where 2: "run_state (create_pod ?c (pvc_Namespace ?q) (provisioner_pod opts ?q n)) w1
      = ((zero_pod, Some (AlreadyExists m)), w2)"
    using assms(3) unfolding create_pod_def pod_left_behind_def by (simp, metis)
  obtain r w3 where 3: "run_state (waitBindPVC p ?q) w2 = (r, w3)" by (metis prod.exhaust)
  show ?thesis
  proof (cases err)
    case (Some e)
    then show ?thesis by (simp add: createPVbyPOD_def Let_def 1)
  next
    case None
    then show ?thesis
      using after [of _ _ w3]
      by (cases r) (simp_all add: createPVbyPOD_def Let_def assms(4) 1 2 3 IsAlreadyExists_def backoff_five [OF assms(1,2)]
          del: run_state_bind add: run_state_bind [of "ensure_pvc p ?q"]
            run_state_bind [of "create_pod ?c (pvc_Namespace ?q) (provisioner_pod opts ?q n)"]
            run_state_bind [of "waitBindPVC p ?q"])
  qed
qed

text \<open>
  C25: the pod method cannot be retried: while the pod of an earlier attempt exists, \<^verbatim>\<open>Provision\<close>
  never returns a volume, because the pod it tries to delete is the empty value the failed creation
  returned.
\<close>

theorem pod_method_not_retriable:
  assumes "wf_provisioner p" and "backoff_contract (hp_client p)" and "pod_left_behind (hp_client p)"
    and "hp_method p = ''pod''"
  shows "provision_returns p opts w \<noteq> Provisioned (Some v) st err"
proof (cases "chosen_class p opts")
  case None
  then show ?thesis using Provision_not_chosen [OF None, of w] by (auto simp: provision_returns_def)
next
  case (Some sc)
  obtain n where n: "opt_SelectedNode opts = Some n" using chosen_class_node [OF Some] by blast
  have kind: "creation_kind p = ByPod" using assms(4) by (simp add: creation_kind_def methodPod_def)
  obtain r w1 where run: "run_state (createPVbyPOD p opts sc) w = (r, w1)" by (metis prod.exhaust)
  with pod_retry_fails [OF assms(1-3) n, of sc w] have "\<forall>v. r \<noteq> Done (Inr v)" by simp
  then show ?thesis
    unfolding provision_returns_def Provision_chosen [OF assms(1) Some] kind
    by (simp add: run provision_result_of_def split: run.split sum.split)
qed

definition leftover_client :: "unit client" where
  "leftover_client = sample_client\<lparr>
     cl_CreatePod := (\<lambda>ns q e. ((zero_pod, Some (AlreadyExists ''pods already exists'')), e)),
     cl_DeletePod := (\<lambda>ns name e. (if name = [] then Some (OtherApiError ''resource name may not be empty'') else None, e))\<rparr>"

theorem pod_method_not_retriable_witness:
  "provision_returns (sample_provisioner leftover_client ''pod'') sample_opts sample_world
     \<noteq> Provisioned (Some sample_pv) ProvisioningFinished None"
proof (rule pod_method_not_retriable [OF wf_sample_provisioner])
  show "backoff_contract (hp_client (sample_provisioner leftover_client ''pod''))"
    by (simp, rule retry_contract) (simp add: leftover_client_def sample_client_def)
  show "pod_left_behind (hp_client (sample_provisioner leftover_client ''pod''))"
    by (simp add: pod_left_behind_def leftover_client_def sample_client_def IsNotFound_def)
  show "hp_method (sample_provisioner leftover_client ''pod'') = ''pod''"
    by (simp add: sample_provisioner_def NewProvisioner_def methodPod_def)
qed

text \<open>
  The pod method deletes only a pod the client returned for its own creation request.
\<close>

theorem Provision_deletes_own_pod:
  assumes "wf_provisioner p" and "backoff_contract (hp_client p)"
    and "DeletePod ns name r \<in> set (provision_calls p opts w)"
  shows "\<exists>q created err. pod_Name created = ''provisioner-'' @ opt_PVName opts \<and>
     CreatePod (pvc_Namespace (opt_PVC opts)) created (q, err) \<in> set (provision_calls p opts w) \<and>
     ns = pod_Namespace q \<and> name = pod_Name q"
  using assms(1,2)
proof (cases rule: Provision_cases [of p opts w])
  case idle
  with assms(3) show ?thesis by simp
next
  case (ran sc n ph r0)
  from deleted_pods [OF ran(3) assms(3)] obtain q err where
    "ns = pod_Namespace q" "name = pod_Name q"
    "CreatePod (pvc_Namespace (opt_PVC opts)) (wanted_pod (protocol_of p opts sc n)) (q, err)
       \<in> set (provision_calls p opts w)"
    by (auto simp: wanted_ns_def)
  moreover have "pod_Name (wanted_pod (protocol_of p opts sc n)) = ''provisioner-'' @ opt_PVName opts"
    by (simp add: wanted_pod_def provisioner_pod_def)
  ultimately show ?thesis by blast
qed

lemma sample_pod_run:
  "provision_calls (sample_provisioner sample_client ''pod'') sample_opts sample_world =
     [ListerGetPVC ''default'' ''pvc-1'' (Inl (NotFound ''not in cache'')),
      CreatePVC ''default'' (requested_pvc sample_opts proxmox_class) (Inr (requested_pvc sample_opts proxmox_class)),
      CreatePod ''default'' (provisioner_pod sample_opts (requested_pvc sample_opts proxmox_class) sample_node)
        (provisioner_pod sample_opts (requested_pvc sample_opts proxmox_class) sample_node, None),
      WatchPVC ''default'' (name_selector ''pvc-1'') (Inr sample_events),
      DeletePod ''default'' ''provisioner-pvc-1'' None] @ drop 3 sample_calls"
proof -
  have sel: "opt_SelectedNode sample_opts = Some sample_node"
    by (simp add: sample_opts_def)
  have req: "pvc_Name (requested_pvc sample_opts proxmox_class) = ''pvc-1''"
    "pvc_Namespace (requested_pvc sample_opts proxmox_class) = ''default''"
    by (simp_all add: requested_pvc_def sample_opts_def user_claim_def)
  have pod: "pod_Name (provisioner_pod sample_opts (requested_pvc sample_opts proxmox_class) sample_node) = ''provisioner-pvc-1''"
    "pod_Namespace (provisioner_pod sample_opts (requested_pvc sample_opts proxmox_class) sample_node) = ''default''"
    by (simp_all add: provisioner_pod_def req) (simp add: sample_opts_def)
  have kind: "creation_kind (sample_provisioner sample_client ''pod'') = ByPod"
    by (simp add: creation_kind_def sample_provisioner_def NewProvisioner_def methodPod_def)
  show ?thesis
    unfolding provision_calls_def Provision_chosen [OF wf_sample_provisioner sample_chosen] kind
      createPVbyPOD_def sel option.case Let_def ensure_pvc_def waitBindPVC_def try_delete_pod_def req call_defs
    by (simp add: sample_client_def sample_world_def IsNotFound_def sample_claim_sel pod sample_backoff
        retry_numeral sample_release [unfolded sample_client_def])
qed

theorem Provision_deletes_own_pod_witness:
  "\<exists>q created err. pod_Name created = ''provisioner-pvc-1'' \<and>
     CreatePod ''default'' created (q, err)
       \<in> set (provision_calls (sample_provisioner sample_client ''pod'') sample_opts sample_world) \<and>
     pod_Name q = ''provisioner-pvc-1''"
proof -
  have "DeletePod ''default'' ''provisioner-pvc-1'' None
      \<in> set (provision_calls (sample_provisioner sample_client ''pod'') sample_opts sample_world)"
    unfolding sample_pod_run by simp
  from Provision_deletes_own_pod [OF sample_ok this] show ?thesis
    by (fastforce simp: sample_opts_def user_claim_def)
qed

end
