(* ===== verification/Footprint.thy ===== *)
theory Footprint
  imports ProvisionProps
begin

text \<open>
  What a run of \<^verbatim>\<open>Provision\<close> writes: the objects its mutating calls name. Two provisionings run in
  parallel workers of the controller; with disjoint footprints their calls can be interleaved in any
  order without one touching an object of the other.
\<close>

section \<open>Footprints\<close>

datatype target = ClaimT string string | VolumeT string | PodT string string | NodeT string

text \<open>The object a call asks to change; a deletion without a name is refused by the client.\<close>

fun call_writes :: "call \<Rightarrow> target set" where
  "call_writes (CreatePVC ns c r) = {ClaimT ns (pvc_Name c)}"
| "call_writes (PatchPVC ns name b r) = {ClaimT ns name}"
| "call_writes (DeletePVC ns name pol r) = {ClaimT ns name}"
| "call_writes (PatchPV name b r) = {VolumeT name}"
| "call_writes (CreatePod ns q r) = {PodT ns (pod_Name q)}"
| "call_writes (DeletePod ns name r) = (if name = '''' then {} else {PodT ns name})"
| "call_writes (PatchNode name b r) = {NodeT name}"
| "call_writes _ = {}"

definition writes :: "call list \<Rightarrow> target set" where
  "writes tr = (\<Union>c\<in>set tr. call_writes c)"

lemma writes_simps [simp]:
  "writes [] = {}" "writes (tr @ tr') = writes tr \<union> writes tr'" "writes (c # tr) = call_writes c \<union> writes tr"
  by (auto simp: writes_def)

text \<open>
  Answers that fit the question, as the API documents them: a watch with a field selector delivers
  objects of that name, a patch answers with the object patched, and the creation of a pod answers
  with that pod, on an error possibly with an empty one.
\<close>

fun honest_call :: "call \<Rightarrow> bool" where
  "honest_call (WatchPVC ns sel (Inr events)) =
     (\<forall>ev\<in>set (received events). \<forall>obj. ev_Object ev = Some obj \<longrightarrow>
        pvc_Namespace obj = ns \<and> sel = name_selector (pvc_Name obj))"
| "honest_call (PatchPV name b (Inr v)) = (pv_Name v = name)"
| "honest_call (CreatePod ns q (r, err)) =
     (pod_Namespace r = ns \<and> pod_Name r = pod_Name q \<or> err \<noteq> None \<and> pod_Name r = '''')"
| "honest_call _ = True"

definition honest :: "call list \<Rightarrow> bool" where
  "honest tr \<longleftrightarrow> (\<forall>c\<in>set tr. honest_call c)"

lemma honest_simps [simp]:
  "honest []" "honest (tr @ tr') \<longleftrightarrow> honest tr \<and> honest tr'" "honest (c # tr) \<longleftrightarrow> honest_call c \<and> honest tr"
  by (auto simp: honest_def)

lemma name_selector_inj [simp]: "name_selector a = name_selector b \<longleftrightarrow> a = b"
  by (simp add: name_selector_def)

text \<open>The volumes of the bound claims a log's watches delivered.\<close>

definition bound_volumes :: "call list \<Rightarrow> string set" where
  "bound_volumes tr =
     {pvc_VolumeName c | c. \<exists>ns sel name events. WatchPVC ns sel (Inr events) \<in> set tr \<and>
        waitBind_loop name events = Inr c}"

lemma bound_volumesI:
  "WatchPVC ns sel (Inr events) \<in> set tr \<Longrightarrow> waitBind_loop name events = Inr c \<Longrightarrow>
   pvc_VolumeName c \<in> bound_volumes tr"
  unfolding bound_volumes_def by blast

lemma bound_volumes_append: "bound_volumes tr \<subseteq> bound_volumes (tr @ tr')"
  unfolding bound_volumes_def set_append by blast

text \<open>The objects a request names: the backing claim, the user's claim, the provisioning pod.\<close>

definition own_objects :: "ProvisionOptions \<Rightarrow> target set" where
  "own_objects opts =
     {ClaimT (pvc_Namespace (opt_PVC opts)) (opt_PVName opts),
      ClaimT (pvc_Namespace (opt_PVC opts)) (pvc_Name (opt_PVC opts)),
      PodT (pvc_Namespace (opt_PVC opts)) (''provisioner-'' @ opt_PVName opts)}"

section \<open>The footprint of the protocol\<close>

lemma waitBind_object:
  "waitBind_loop name events = Inr c \<Longrightarrow> \<exists>ev\<in>set (received events). ev_Object ev = Some c"
  by (auto simp: bind_accept_Some dest!: binding.loop_accepted)

lemma phase_claim_honest:
  assumes "proto_reach x tr ph" and "phase_claim ph = Some claim" and "honest tr"
  shows "pvc_Namespace claim = wanted_ns x \<and> pvc_Name claim = wanted_name x \<and>
    pvc_VolumeName claim \<in> bound_volumes tr"
proof -
  from log_inv_reach [OF assms(1)] assms(2) obtain events where
    watch: "WatchPVC (wanted_ns x) (name_selector (wanted_name x)) (Inr events) \<in> set tr"
    and bound: "waitBind_loop (wanted_name x) events = Inr claim"
    by (auto simp: log_inv_def)
  from watch assms(3) have "honest_call (WatchPVC (wanted_ns x) (name_selector (wanted_name x)) (Inr events))"
    by (simp only: honest_def)
  with waitBind_object [OF bound] bound_volumesI [OF watch bound] show ?thesis by auto
qed

lemma phase_volume_progress: "phase_volume ph = Some v \<Longrightarrow> 4 \<le> progress ph"
  by (induction ph) auto

lemma phase_volume_honest:
  assumes "proto_reach x tr ph" and "phase_claim ph = Some claim" and "phase_volume ph = Some v" and "honest tr"
  shows "pv_Name v = pvc_VolumeName claim"
proof -
  from log_inv_reach [OF assms(1)] assms(2,3) have "PatchPV (pvc_VolumeName claim) unclaim_patch (Inr v) \<in> set tr"
    using phase_volume_progress [OF assms(3)] by (simp add: log_inv_def)
  with assms(4) have "honest_call (PatchPV (pvc_VolumeName claim) unclaim_patch (Inr v))"
    by (simp only: honest_def)
  then show ?thesis by simp
qed

lemma wanted_pod_names [simp]:
  "pod_Name (wanted_pod x) = ''provisioner-'' @ opt_PVName (pr_opts x)"
  "pod_Namespace (wanted_pod x) = wanted_ns x"
  by (simp_all add: wanted_pod_def provisioner_pod_def)

lemma mounted_pod_honest:
  assumes "proto_reach x tr (Mounted q claim)" and "honest tr"
  shows "pod_Name q = '''' \<or> pod_Namespace q = wanted_ns x \<and> pod_Name q = ''provisioner-'' @ opt_PVName (pr_opts x)"
proof -
  from pod_deleted_as_created [OF assms(1)] obtain err where
    "CreatePod (wanted_ns x) (wanted_pod x) (q, err) \<in> set tr" by blast
  with assms(2) have "honest_call (CreatePod (wanted_ns x) (wanted_pod x) (q, err))"
    by (simp only: honest_def)
  then show ?thesis by auto
qed

lemma step_footprint:
  assumes reach: "proto_reach x tr ph" and step: "proto_step x ph c ph'" and honest: "honest tr"
  shows "call_writes c \<subseteq> own_objects (pr_opts x) \<union> VolumeT ` bound_volumes tr"
proof -
  have claim: "pvc_Namespace claim = wanted_ns x \<and> pvc_Name claim = wanted_name x \<and> pvc_VolumeName claim \<in> bound_volumes tr"
    if "phase_claim ph = Some claim" for claim
    by (rule phase_claim_honest [OF reach that honest])
  have volume: "pv_Name v = pvc_VolumeName claim" if "phase_claim ph = Some claim" "phase_volume ph = Some v" for claim v
    by (rule phase_volume_honest [OF reach that honest])
  have pod: "call_writes (DeletePod (pod_Namespace q) (pod_Name q) err) \<subseteq> own_objects (pr_opts x)"
    if "ph = Mounted q claim" for q claim err
    using mounted_pod_honest [of x tr q claim] reach honest that by (auto simp: own_objects_def wanted_ns_def)
  from step show ?thesis
  proof (cases rule: proto_step.cases)
    case (pod_removed err q claim)
    with pod show ?thesis by fast
  next
    case (pod_stays e q claim)
    with pod show ?thesis by fast
  qed (use claim volume in \<open>auto simp: own_objects_def wanted_ns_def wanted_name_def\<close>)
qed

lemma reach_footprint:
  "proto_reach x tr ph \<Longrightarrow> honest tr \<Longrightarrow> writes tr \<subseteq> own_objects (pr_opts x) \<union> VolumeT ` bound_volumes tr"
proof (induction rule: proto_reach.induct)
  case reach_start
  then show ?case by simp
next
  case (reach_step tr ph c ph')
  then have "honest tr" by simp
  with reach_step.IH step_footprint [OF reach_step.hyps] image_mono [OF bound_volumes_append [of tr "[c]"], of VolumeT]
  show ?case unfolding writes_simps by blast
qed

lemma Provision_writes:
  assumes "wf_provisioner p" and "backoff_contract (hp_client p)" and "honest (provision_calls p opts w)"
  shows "writes (provision_calls p opts w) \<subseteq>
     own_objects opts \<union> VolumeT ` bound_volumes (provision_calls p opts w)"
  using assms(1,2)
proof (cases rule: Provision_cases [of p opts w])
  case idle
  then show ?thesis by simp
next
  case (ran sc n ph r)
  from reach_footprint [OF ran(3) assms(3)] show ?thesis by simp
qed

section \<open>Properties\<close>

text \<open>
  C14: when the API server's answers fit its questions, a run of \<^verbatim>\<open>Provision\<close> changes nothing but the
  objects the request names (the backing claim, the user's claim, the provisioning pod) and the
  volumes of the bound claims its own watch delivered; this holds of every run, failed or not.
\<close>

theorem Provision_footprint:
  assumes "wf_provisioner p" and "backoff_contract (hp_client p)" and "honest (provision_calls p opts w)"
  shows "writes (provision_calls p opts w) \<subseteq>
     own_objects opts \<union> VolumeT ` bound_volumes (provision_calls p opts w)"
  using assms by (rule Provision_writes)

lemma sample_honest: "honest sample_calls"
  unfolding sample_calls_def
  by (auto simp: sample_pv_def sample_events_def sample_claim_def annotated_pvc_def)

theorem Provision_footprint_witness:
  "writes sample_calls \<subseteq> own_objects sample_opts \<union> VolumeT ` bound_volumes sample_calls \<and>
   VolumeT ''pv-1'' \<in> writes sample_calls"
proof (rule conjI)
  have "honest (provision_calls (sample_provisioner sample_client ''auto'') sample_opts sample_world)"
    unfolding sample_provision by (rule sample_honest)
  from Provision_footprint [OF sample_ok this]
  show "writes sample_calls \<subseteq> own_objects sample_opts \<union> VolumeT ` bound_volumes sample_calls"
    unfolding sample_provision .
  show "VolumeT ''pv-1'' \<in> writes sample_calls" by (simp add: sample_calls_def)
qed

end
