(* ===== verification/Tools.thy ===== *)
theory Tools
  imports WatchLoop
begin

text \<open>
  The helpers of \<^verbatim>\<open>pkg/tools\<close>: building a client configuration (\<^verbatim>\<open>config.go\<close>), cordoning nodes and
  finding the nodes of a driver (\<^verbatim>\<open>nodes.go\<close>), and the claim helpers of \<^verbatim>\<open>pv.go\<close>
  (\<^verbatim>\<open>PVWaitDelete\<close> is in \<open>WatchLoop\<close>). A nil slice and an empty one are the same list.
\<close>

section \<open>config.go\<close>

text \<open>
  The loader of \<^verbatim>\<open>clientcmd\<close>: the explicit path of the default rules, and what the deferred loading
  configuration for a path answers.
\<close>

record 'k config_loader =
  ld_DefaultPath :: string
  ld_Namespace :: "string \<Rightarrow> go_error + string"
  ld_ClientConfig :: "string \<Rightarrow> 'k option \<times> go_error option"

definition BuildConfig ::
  "'k config_loader \<Rightarrow> string \<Rightarrow> string \<Rightarrow> 'k option \<times> string \<times> go_error option" where
  "BuildConfig ld kubeconfig namespace =
     (let explicitPath = (if kubeconfig \<noteq> '''' then kubeconfig else ld_DefaultPath ld);
          ns = (if namespace = '''' then ld_Namespace ld explicitPath else Inr namespace)
      in case ns of
           Inl err \<Rightarrow> (None, '''', Some (Wrapf ''failed to get namespace from kubeconfig: %w'' [] err))
         | Inr n \<Rightarrow> (case ld_ClientConfig ld explicitPath of (k, err) \<Rightarrow> (k, n, err)))"

section \<open>nodes.go\<close>

fun driver_node :: "csi_node_driver list \<Rightarrow> string \<Rightarrow> string list \<Rightarrow> string list" where
  "driver_node [] csiDriverName nodes = nodes"
| "driver_node (driver # rest) csiDriverName nodes =
     (if drv_name driver = csiDriverName then nodes @ [drv_NodeID driver]
      else driver_node rest csiDriverName nodes)"

fun csi_nodes_loop :: "csi_node list \<Rightarrow> string \<Rightarrow> string list \<Rightarrow> string list" where
  "csi_nodes_loop [] csiDriverName nodes = nodes"
| "csi_nodes_loop (csinode # rest) csiDriverName nodes =
     csi_nodes_loop rest csiDriverName (driver_node (csin_Drivers csinode) csiDriverName nodes)"

definition CSINodes :: "'e client \<Rightarrow> string \<Rightarrow> ('e world, go_error + string list) state" where
  "CSINodes c csiDriverName = do {
     r \<leftarrow> list_csi_nodes c;
     case r of
       Inl err \<Rightarrow> State_Monad.return (Inl (Wrapf ''failed to list CSINodes: %v'' [] (ApiErr err)))
     | Inr items \<Rightarrow> State_Monad.return (Inr (csi_nodes_loop items csiDriverName []))
   }"

definition cordon_patch :: patch_body where
  \<open>cordon_patch = Raw ''{"spec":{"unschedulable":true}}''\<close>

definition uncordon_patch :: patch_body where
  \<open>uncordon_patch = Raw ''{"spec":{"unschedulable":false}}''\<close>

fun condon_loop ::
  "'e client \<Rightarrow> string list \<Rightarrow> string list \<Rightarrow> ('e world, go_error + string list) state" where
  "condon_loop c cordonedNodes [] = State_Monad.return (Inr cordonedNodes)"
| "condon_loop c cordonedNodes (n # rest) = do {
     r \<leftarrow> get_node c n;
     case r of
       Inl err \<Rightarrow> State_Monad.return (Inl (Wrapf ''failed to get node status: %v'' [] (ApiErr err)))
     | Inr nodeStatus \<Rightarrow>
         if \<not> node_Unschedulable nodeStatus then do {
           r \<leftarrow> patch_node c n cordon_patch;
           case r of
             Some err \<Rightarrow> State_Monad.return (Inl (Wrapf ''failed to cordon node: %v'' [] (ApiErr err)))
           | None \<Rightarrow> condon_loop c (cordonedNodes @ [n]) rest
         }
         else condon_loop c cordonedNodes rest
   }"

definition CondonNodes :: "'e client \<Rightarrow> string list \<Rightarrow> ('e world, go_error + string list) state" where
  "CondonNodes c nodes = condon_loop c [] nodes"

fun UncondonNodes :: "'e client \<Rightarrow> string list \<Rightarrow> ('e world, go_error option) state" where
  "UncondonNodes c [] = State_Monad.return None"
| "UncondonNodes c (n # rest) = do {
     r \<leftarrow> patch_node c n uncordon_patch;
     case r of
       Some err \<Rightarrow> State_Monad.return (Some (Wrapf ''failed to uncordon node: %v'' [] (ApiErr err)))
     | None \<Rightarrow> UncondonNodes c rest
   }"

section \<open>pv.go\<close>

definition PVCResources ::
  "'e client \<Rightarrow> string \<Rightarrow> string \<Rightarrow> ('e world, go_error + pvc \<times> pv) state" where
  "PVCResources c namespace pvcName = do {
     r \<leftarrow> get_pvc c namespace pvcName;
     case r of
       Inl err \<Rightarrow> State_Monad.return
         (Inl (Wrapf ''failed to get PersistentVolumeClaims: %v'' [] (ApiErr err)))
     | Inr claim \<Rightarrow> do {
         r \<leftarrow> get_pv c (pvc_VolumeName claim);
         case r of
           Inl err \<Rightarrow> State_Monad.return
             (Inl (Wrapf ''failed to get PersistentVolumes: %v'' [] (ApiErr err)))
         | Inr v \<Rightarrow> State_Monad.return (Inr (claim, v))
       }
   }"

definition PodPending :: string where
  "PodPending = ''Pending''"

fun mounts_claim :: "pod_volume list \<Rightarrow> string \<Rightarrow> bool" where
  "mounts_claim [] pvcName = False"
| "mounts_claim (volume # rest) pvcName =
     (if vol_ClaimName volume = Some pvcName then True else mounts_claim rest pvcName)"

fun pod_usage_loop :: "pod list \<Rightarrow> string \<Rightarrow> string list \<Rightarrow> string \<Rightarrow> string list \<times> string" where
  "pod_usage_loop [] pvcName pods nodeName = (pods, nodeName)"
| "pod_usage_loop (x # rest) pvcName pods nodeName =
     (if pod_Phase x \<noteq> PodPending then
        if mounts_claim (pod_Volumes x) pvcName
        then pod_usage_loop rest pvcName (pods @ [pod_Name x]) (pod_NodeName x)
        else pod_usage_loop rest pvcName pods nodeName
      else pod_usage_loop rest pvcName pods nodeName)"

definition PVCPodUsage ::
  "'e client \<Rightarrow> string \<Rightarrow> string \<Rightarrow> ('e world, go_error + string list \<times> string) state" where
  "PVCPodUsage c namespace pvcName = do {
     r \<leftarrow> list_pods c namespace;
     case r of
       Inl err \<Rightarrow> State_Monad.return (Inl (Wrapf ''failed to list pods: %v'' [] (ApiErr err)))
     | Inr items \<Rightarrow> State_Monad.return (Inr (pod_usage_loop items pvcName [] ''''))
   }"

definition PVCCreateOrUpdate :: "'e client \<Rightarrow> pvc \<Rightarrow> ('e world, go_error + pvc) state" where
  "PVCCreateOrUpdate c claim = do {
     r \<leftarrow> create_pvc c (pvc_Namespace claim) claim;
     case r of
       Inl err \<Rightarrow> do {
         r \<leftarrow> patch_pvc c (pvc_Namespace claim) (pvc_Name claim)
               (Marshalled (zero_pvc\<lparr>pvc_VolumeName := pvc_VolumeName claim\<rparr>));
         case r of
           Inl err \<Rightarrow> State_Monad.return (Inl (ApiErr err))
         | Inr res \<Rightarrow> State_Monad.return (Inr res)
       }
     | Inr res \<Rightarrow> State_Monad.return (Inr res)
   }"

section \<open>Properties of the loops over lists\<close>

lemma driver_node_find:
  "driver_node ds name acc =
     acc @ (case find (\<lambda>d. drv_name d = name) ds of None \<Rightarrow> [] | Some d \<Rightarrow> [drv_NodeID d])"
  by (induction ds) auto

lemma csi_nodes_loop_eq:
  "csi_nodes_loop xs name acc =
     acc @ map drv_NodeID (List.map_filter (\<lambda>x. find (\<lambda>d. drv_name d = name) (csin_Drivers x)) xs)"
  by (induction xs arbitrary: acc) (auto simp: driver_node_find List.map_filter_def split: option.splits)

text \<open>
  \<^verbatim>\<open>CSINodes\<close> gives, in the order of the list, the node id under which each node's first
  registration of the driver stands, and nothing for a node without one.
\<close>

theorem CSINodes_result:
  "fst (run_state (CSINodes c name) w) =
     (case fst (cl_ListCSINodes c (env w)) of
        Inl err \<Rightarrow> Inl (Wrapf ''failed to list CSINodes: %v'' [] (ApiErr err))
      | Inr items \<Rightarrow> Inr (map drv_NodeID
          (List.map_filter (\<lambda>x. find (\<lambda>d. drv_name d = name) (csin_Drivers x)) items)))"
  by (simp add: CSINodes_def list_csi_nodes_def csi_nodes_loop_eq split: sum.splits)

lemma mounts_claim_iff: "mounts_claim vs name \<longleftrightarrow> Some name \<in> vol_ClaimName ` set vs"
  by (induction vs) auto

definition uses_claim :: "string \<Rightarrow> pod \<Rightarrow> bool" where
  "uses_claim name x \<longleftrightarrow> pod_Phase x \<noteq> ''Pending'' \<and> Some name \<in> vol_ClaimName ` set (pod_Volumes x)"

lemma pod_usage_loop_eq:
  "pod_usage_loop xs name acc nd =
     (let users = filter (uses_claim name) xs
      in (acc @ map pod_Name users, if users = [] then nd else pod_NodeName (last users)))"
  by (induction xs arbitrary: acc nd) (auto simp: uses_claim_def mounts_claim_iff PodPending_def Let_def)

text \<open>
  C40: \<^verbatim>\<open>PVCPodUsage\<close> names every pod of the namespace that mounts the claim and is not pending, once
  and in order, and the node of the last of them; without such a pod the node is empty. When the pods
  cannot be listed their error is the result.
\<close>

theorem PVCPodUsage_result:
  "fst (run_state (PVCPodUsage c ns name) w) =
     (case fst (cl_ListPods c ns (env w)) of
        Inl err \<Rightarrow> Inl (Wrapf ''failed to list pods: %v'' [] (ApiErr err))
      | Inr items \<Rightarrow>
          (let users = filter (uses_claim name) items
           in Inr (map pod_Name users, if users = [] then '''' else pod_NodeName (last users))))"
  by (simp add: PVCPodUsage_def list_pods_def pod_usage_loop_eq Let_def split: sum.splits)

section \<open>Cordoning\<close>

text \<open>
  Views of a log: the nodes read, the nodes whose patch with a given body went through, and the
  nodes the API server reported as schedulable.
\<close>

definition nodes_read :: "call list \<Rightarrow> string list" where
  "nodes_read tr = List.map_filter (\<lambda>x. case x of GetNode n r \<Rightarrow> Some n | _ \<Rightarrow> None) tr"

definition nodes_patched :: "patch_body \<Rightarrow> call list \<Rightarrow> string list" where
  "nodes_patched b tr =
     List.map_filter (\<lambda>x. case x of PatchNode n b' None \<Rightarrow> (if b' = b then Some n else None) | _ \<Rightarrow> None) tr"

definition nodes_schedulable :: "call list \<Rightarrow> string list" where
  "nodes_schedulable tr =
     List.map_filter (\<lambda>x. case x of GetNode n (Inr s) \<Rightarrow> (if node_Unschedulable s then None else Some n) | _ \<Rightarrow> None) tr"

lemmas node_views = nodes_read_def nodes_patched_def nodes_schedulable_def List.map_filter_def

lemma condon_loop_log:
  "run_state (condon_loop c acc nodes) w = (Inr cordoned, w') \<Longrightarrow>
   \<exists>tr. calls w' = calls w @ tr \<and> cordoned = acc @ nodes_schedulable tr \<and>
     nodes_patched cordon_patch tr = nodes_schedulable tr \<and> nodes_read tr = nodes"
proof (induction nodes arbitrary: acc w)
  case Nil
  then show ?case by (auto simp: node_views)
next
  case (Cons n nodes)
  obtain s e1 where get: "cl_GetNode c n (env w) = (Inr s, e1)"
    using Cons.prems by (cases "cl_GetNode c n (env w)") (auto simp: get_node_def split: sum.splits)
  let ?w1 = "w\<lparr>env := e1, calls := calls w @ [GetNode n (Inr s)]\<rparr>"
  show ?case
  proof (cases "node_Unschedulable s")
    case True
    with Cons.prems get have "run_state (condon_loop c acc nodes) ?w1 = (Inr cordoned, w')"
      by (simp add: get_node_def)
    from Cons.IH [OF this] obtain tr where tr: "calls w' = calls ?w1 @ tr"
      "cordoned = acc @ nodes_schedulable tr" "nodes_patched cordon_patch tr = nodes_schedulable tr"
      "nodes_read tr = nodes" by blast
    with True show ?thesis
      by (intro exI [of _ "GetNode n (Inr s) # tr"]) (simp add: node_views)
  next
    case False
    obtain e2 where patch: "cl_PatchNode c n cordon_patch e1 = (None, e2)"
      using Cons.prems get False
      by (cases "cl_PatchNode c n cordon_patch e1") (auto simp: get_node_def patch_node_def split: option.splits)
    let ?w2 = "w\<lparr>env := e2, calls := calls w @ [GetNode n (Inr s), PatchNode n cordon_patch None]\<rparr>"
    from Cons.prems get False patch
    have "run_state (condon_loop c (acc @ [n]) nodes) ?w2 = (Inr cordoned, w')"
      by (simp add: get_node_def patch_node_def)
    from Cons.IH [OF this] obtain tr where tr: "calls w' = calls ?w2 @ tr"
      "cordoned = (acc @ [n]) @ nodes_schedulable tr" "nodes_patched cordon_patch tr = nodes_schedulable tr"
      "nodes_read tr = nodes" by blast
    with False show ?thesis
      by (intro exI [of _ "GetNode n (Inr s) # PatchNode n cordon_patch None # tr"]) (simp add: node_views)
  qed
qed

text \<open>
  The node part of the API as documented, while nobody else touches the flag: \<open>flag\<close> reads
  \<^verbatim>\<open>spec.unschedulable\<close> off the environment, a read reports it and changes nothing, a patch
  that goes through sets it for its node, and one that fails changes nothing.
\<close>

definition node_contract :: "'e client \<Rightarrow> ('e \<Rightarrow> string \<Rightarrow> bool) \<Rightarrow> bool" where
  "node_contract c flag \<longleftrightarrow>
     (\<forall>n e. flag (snd (cl_GetNode c n e)) = flag e \<and>
        (\<forall>s. fst (cl_GetNode c n e) = Inr s \<longrightarrow> node_Unschedulable s = flag e n)) \<and>
     (\<forall>n e. flag (snd (cl_PatchNode c n cordon_patch e)) =
        (if fst (cl_PatchNode c n cordon_patch e) = None then (flag e)(n := True) else flag e)) \<and>
     (\<forall>n e. flag (snd (cl_PatchNode c n uncordon_patch e)) =
        (if fst (cl_PatchNode c n uncordon_patch e) = None then (flag e)(n := False) else flag e))"

lemma contract_get:
  "node_contract c flag \<Longrightarrow> cl_GetNode c n e = (r, e') \<Longrightarrow>
   flag e' = flag e \<and> (\<forall>s. r = Inr s \<longrightarrow> node_Unschedulable s = flag e n)"
  unfolding node_contract_def by (metis fst_conv snd_conv)

lemma contract_cordon:
  "node_contract c flag \<Longrightarrow> cl_PatchNode c n cordon_patch e = (r, e') \<Longrightarrow>
   flag e' = (if r = None then (flag e)(n := True) else flag e)"
  unfolding node_contract_def by (metis fst_conv snd_conv)

lemma contract_uncordon:
  "node_contract c flag \<Longrightarrow> cl_PatchNode c n uncordon_patch e = (r, e') \<Longrightarrow>
   flag e' = (if r = None then (flag e)(n := False) else flag e)"
  unfolding node_contract_def by (metis fst_conv snd_conv)

text \<open>The call at a node that ends the loop, and the error made of its answer.\<close>

definition cordon_stopped :: "string \<Rightarrow> call \<Rightarrow> go_error \<Rightarrow> bool" where
  "cordon_stopped n c err \<longleftrightarrow>
     (\<exists>e. c = GetNode n (Inl e) \<and> err = Wrapf ''failed to get node status: %v'' [] (ApiErr e)) \<or>
     (\<exists>e. c = PatchNode n cordon_patch (Some e) \<and> err = Wrapf ''failed to cordon node: %v'' [] (ApiErr e))"

text \<open>The effect of the loop on the flags: it sets those of the nodes it got through.\<close>

definition cordon_outcome ::
  "(string \<Rightarrow> bool) \<Rightarrow> string list \<Rightarrow> string list \<Rightarrow> call \<Rightarrow> go_error + string list \<Rightarrow> (string \<Rightarrow> bool) \<Rightarrow> bool" where
  "cordon_outcome before nodes acc final r after \<longleftrightarrow>
     (case r of
        Inl err \<Rightarrow> \<exists>k<length nodes. after = (\<lambda>n. n \<in> set (take k nodes) \<or> before n) \<and> cordon_stopped (nodes ! k) final err
      | Inr cordoned \<Rightarrow> after = (\<lambda>n. n \<in> set nodes \<or> before n) \<and>
          (\<exists>new. cordoned = acc @ new \<and> set new = {n \<in> set nodes. \<not> before n}))"

lemma cordon_outcome_stop: "cordon_stopped n final err \<Longrightarrow> cordon_outcome before (n # nodes) acc final (Inl err) before"
  by (auto simp: cordon_outcome_def intro!: exI [of _ 0])

lemma cordon_outcome_step:
  assumes "cordon_outcome (before(n := True)) nodes acc' final r after"
    and "acc' = (if before n then acc else acc @ [n])"
  shows "cordon_outcome before (n # nodes) acc final r after"
proof (cases r)
  case (Inl err)
  with assms obtain k where "k < length nodes"
    and "after = (\<lambda>m. m \<in> set (take k nodes) \<or> (before(n := True)) m)" and "cordon_stopped (nodes ! k) final err"
    by (auto simp: cordon_outcome_def)
  with Inl show ?thesis
    by (auto simp: cordon_outcome_def fun_eq_iff intro!: exI [of _ "Suc k"])
next
  case (Inr cordoned)
  with assms obtain new where after: "after = (\<lambda>m. m \<in> set nodes \<or> (before(n := True)) m)"
    and new: "cordoned = acc' @ new" "set new = {m \<in> set nodes. \<not> (before(n := True)) m}"
    by (auto simp: cordon_outcome_def)
  have "\<exists>new'. cordoned = acc @ new' \<and> set new' = {m \<in> set (n # nodes). \<not> before m}"
  proof (cases "before n")
    case True
    with new assms(2) show ?thesis by auto
  next
    case False
    with new assms(2) show ?thesis by (intro exI [of _ "n # new"]) auto
  qed
  with Inr after show ?thesis by (auto simp: cordon_outcome_def fun_eq_iff)
qed

lemma condon_loop_flags:
  assumes "node_contract c flag"
  shows "run_state (condon_loop c acc nodes) w = (r, w') \<Longrightarrow>
    cordon_outcome (flag (env w)) nodes acc (last (calls w')) r (flag (env w'))"
proof (induction nodes arbitrary: acc w)
  case Nil
  then show ?case by (auto simp: cordon_outcome_def)
next
  case (Cons n nodes)
  obtain g e1 where get: "cl_GetNode c n (env w) = (g, e1)" by fastforce
  note g = contract_get [OF assms get]
  obtain p e2 where patch: "cl_PatchNode c n cordon_patch e1 = (p, e2)" by fastforce
  note p = contract_cordon [OF assms patch]
  show ?case
  proof (cases g)
    case (Inl err)
    with Cons.prems get g show ?thesis by (auto simp: get_node_def cordon_stopped_def intro!: cordon_outcome_stop)
  next
    case (Inr s)
    show ?thesis
    proof (cases "node_Unschedulable s")
      case True
      with Inr g have same: "(flag (env w))(n := True) = flag e1" "flag (env w) n" by (auto simp: fun_eq_iff)
      from Cons.prems get Inr True have
        "run_state (condon_loop c acc nodes) (w\<lparr>env := e1, calls := calls w @ [GetNode n (Inr s)]\<rparr>) = (r, w')"
        by (simp add: get_node_def)
      from Cons.IH [OF this] same show ?thesis by (auto intro: cordon_outcome_step)
    next
      case False
      show ?thesis
      proof (cases p)
        case None
        with p g Inr False have same: "(flag (env w))(n := True) = flag e2" "\<not> flag (env w) n" by auto
        from Cons.prems get Inr False patch None have
          "run_state (condon_loop c (acc @ [n]) nodes)
             (w\<lparr>env := e2, calls := calls w @ [GetNode n (Inr s), PatchNode n cordon_patch None]\<rparr>) = (r, w')"
          by (simp add: get_node_def patch_node_def)
        from Cons.IH [OF this] same show ?thesis by (auto intro: cordon_outcome_step)
      next
        case (Some err)
        with Cons.prems get Inr False patch p g show ?thesis
          by (auto simp: get_node_def patch_node_def cordon_stopped_def intro!: cordon_outcome_stop)
      qed
    qed
  qed
qed

lemma UncondonNodes_flags:
  assumes "node_contract c flag"
  shows "run_state (UncondonNodes c nodes) w = (None, w') \<Longrightarrow>
   flag (env w') = (\<lambda>n. n \<notin> set nodes \<and> flag (env w) n)"
proof (induction nodes arbitrary: w)
  case Nil
  then show ?case by simp
next
  case (Cons n nodes)
  obtain p e1 where patch: "cl_PatchNode c n uncordon_patch (env w) = (p, e1)" by fastforce
  note p = contract_uncordon [OF assms patch]
  from Cons.prems patch have none: "p = None" by (auto simp: patch_node_def split: option.splits)
  with Cons.prems patch have
    "run_state (UncondonNodes c nodes) (w\<lparr>env := e1, calls := calls w @ [PatchNode n uncordon_patch None]\<rparr>) = (None, w')"
    by (simp add: patch_node_def)
  from Cons.IH [OF this] p none show ?case by (auto simp: fun_eq_iff)
qed

section \<open>Properties of cordoning\<close>

text \<open>A cluster of nodes with their flag, and a client over it that keeps the contract.\<close>

definition node_client :: "(string \<Rightarrow> bool) client" where
  "node_client =
     \<lparr>cl_ListerGetPVC = (\<lambda>ns name e. (Inl (NotFound name), e)),
      cl_CreatePVC = (\<lambda>ns c e. (Inr c, e)),
      cl_GetPVC = (\<lambda>ns name e. (Inr sample_claim, e)),
      cl_PatchPVC = (\<lambda>ns name b e. (Inr sample_claim, e)),
      cl_DeletePVC = (\<lambda>ns name pol e. (None, e)),
      cl_WatchPVC = (\<lambda>ns sel e. (Inr sample_events, e)),
      cl_GetPV = (\<lambda>name e. (Inr sample_pv, e)),
      cl_PatchPV = (\<lambda>name b e. (Inr sample_pv, e)),
      cl_WatchPV = (\<lambda>sel e. (Inr TimerFired, e)),
      cl_CreatePod = (\<lambda>ns q e. ((q, None), e)),
      cl_DeletePod = (\<lambda>ns name e. (None, e)),
      cl_ListPods = (\<lambda>ns e. (Inr [], e)),
      cl_GetNode = (\<lambda>name e. (if name = ''gone'' then Inl (NotFound name)
         else Inr \<lparr>node_name = name, node_Labels = Map.empty, node_Unschedulable = e name\<rparr>, e)),
      cl_PatchNode = (\<lambda>name b e. (None, if b = cordon_patch then e(name := True)
         else if b = uncordon_patch then e(name := False) else e)),
      cl_ListCSINodes = (\<lambda>e. (Inr [], e)),
      cl_ExponentialBackoff = (\<lambda>b cond. retry (nat (bo_Steps b)) cond)\<rparr>"

definition node_world :: "(string \<Rightarrow> bool) world" where
  "node_world = \<lparr>env = (\<lambda>n. n = ''b''), calls = []\<rparr>"

lemma node_client_contract: "node_contract node_client (\<lambda>e. e)"
  by (simp add: node_contract_def node_client_def cordon_patch_def uncordon_patch_def)

lemmas node_run_defs = CondonNodes_def get_node_def patch_node_def node_client_def node_world_def

text \<open>
  C33: \<^verbatim>\<open>CondonNodes\<close> without error reads every node once, in order, patches exactly those reported
  schedulable, and returns exactly those, whatever the API server answers.
\<close>

theorem CondonNodes_cordons_schedulable:
  assumes "run_state (CondonNodes c nodes) w = (Inr cordoned, w')"
  shows "\<exists>tr. calls w' = calls w @ tr \<and> nodes_read tr = nodes \<and>
     nodes_patched cordon_patch tr = nodes_schedulable tr \<and> cordoned = nodes_schedulable tr"
  using condon_loop_log [OF assms [unfolded CondonNodes_def]] by auto

theorem CondonNodes_cordons_schedulable_witness:
  "\<exists>tr. calls (snd (run_state (CondonNodes node_client [''a'', ''b'', ''c'']) node_world)) =
       calls node_world @ tr \<and> nodes_read tr = [''a'', ''b'', ''c''] \<and>
     nodes_patched cordon_patch tr = nodes_schedulable tr \<and> [''a'', ''c''] = nodes_schedulable tr"
  by (rule CondonNodes_cordons_schedulable [where c = node_client and w = node_world], rule prod_eqI)
    (simp_all add: node_run_defs)

text \<open>
  C32: cordoning and then uncordoning what was cordoned restores every node: those already
  unschedulable before are left so.
\<close>

theorem cordon_uncordon_roundtrip:
  assumes "node_contract c flag"
    and "run_state (CondonNodes c nodes) w = (Inr cordoned, w')"
    and "run_state (UncondonNodes c cordoned) w' = (None, w'')"
  shows "(\<forall>n\<in>set nodes. flag (env w') n) \<and> flag (env w'') = flag (env w)"
proof -
  from condon_loop_flags [OF assms(1) assms(2) [unfolded CondonNodes_def]]
  have "flag (env w') = (\<lambda>n. n \<in> set nodes \<or> flag (env w) n)"
    and "set cordoned = {n \<in> set nodes. \<not> flag (env w) n}" by (auto simp: cordon_outcome_def)
  with UncondonNodes_flags [OF assms(1,3)] show ?thesis by auto
qed

theorem cordon_uncordon_roundtrip_witness:
  "\<exists>w' w''. run_state (CondonNodes node_client [''a'', ''b'']) node_world = (Inr [''a''], w') \<and>
     run_state (UncondonNodes node_client [''a'']) w' = (None, w'') \<and>
     (\<forall>n\<in>set [''a'', ''b'']. env w' n) \<and> env w'' = env node_world"
proof -
  obtain w' where cordon: "run_state (CondonNodes node_client [''a'', ''b'']) node_world = (Inr [''a''], w')"
    by (simp add: node_run_defs)
  obtain w'' where uncordon: "run_state (UncondonNodes node_client [''a'']) w' = (None, w'')"
    by (simp add: node_run_defs)
  from cordon_uncordon_roundtrip [OF node_client_contract cordon uncordon] cordon uncordon
  show ?thesis by blast
qed

text \<open>
  C34: when \<^verbatim>\<open>CondonNodes\<close> ends in an error, a proper prefix of the nodes has been cordoned and stays
  so: the nodes before the one at which reading or patching failed. The error is the answer of that last
  call under one of two fixed messages, so it does not say which nodes these are.
\<close>

theorem CondonNodes_error_leaves_cordoned:
  assumes "node_contract c flag"
    and "run_state (CondonNodes c nodes) w = (Inl err, w')"
  shows "\<exists>k<length nodes. flag (env w') = (\<lambda>n. n \<in> set (take k nodes) \<or> flag (env w) n) \<and>
     ((\<exists>e. last (calls w') = GetNode (nodes ! k) (Inl e) \<and> err = Wrapf ''failed to get node status: %v'' [] (ApiErr e)) \<or>
      (\<exists>e. last (calls w') = PatchNode (nodes ! k) cordon_patch (Some e) \<and>
         err = Wrapf ''failed to cordon node: %v'' [] (ApiErr e)))"
  using condon_loop_flags [OF assms(1) assms(2) [unfolded CondonNodes_def]]
  by (simp add: cordon_outcome_def cordon_stopped_def)

theorem CondonNodes_error_leaves_cordoned_witness:
  "\<exists>err w'. run_state (CondonNodes node_client [''a'', ''gone'']) node_world = (Inl err, w') \<and>
     env w' ''a'' \<and> \<not> env node_world ''a'' \<and> (\<exists>msg e. err = Wrapf msg [] (ApiErr e))"
proof -
  obtain err w' where run: "run_state (CondonNodes node_client [''a'', ''gone'']) node_world = (Inl err, w')"
    and a: "env w' ''a''"
    by (simp add: node_run_defs)
  have "\<not> env node_world ''a''" by (simp add: node_world_def)
  with CondonNodes_error_leaves_cordoned [OF node_client_contract run] run a show ?thesis by blast
qed

section \<open>Properties of the claim helpers\<close>

text \<open>
  \<^verbatim>\<open>PVCCreateOrUpdate\<close> makes one call when the claim could be created and two otherwise; the
  second writes the volume name alone, whatever the reason of the first failure, and its answer is
  the result.
\<close>

theorem PVCCreateOrUpdate_calls:
  "let (created, e) = cl_CreatePVC c (pvc_Namespace claim) claim (env w);
       patch = Marshalled (zero_pvc\<lparr>pvc_VolumeName := pvc_VolumeName claim\<rparr>);
       (patched, e') = cl_PatchPVC c (pvc_Namespace claim) (pvc_Name claim) patch e
   in run_state (PVCCreateOrUpdate c claim) w =
        (case created of
           Inr res \<Rightarrow> (Inr res, w\<lparr>env := e, calls := calls w @ [CreatePVC (pvc_Namespace claim) claim (Inr res)]\<rparr>)
         | Inl err \<Rightarrow>
             (map_sum ApiErr id patched,
              w\<lparr>env := e', calls := calls w @ [CreatePVC (pvc_Namespace claim) claim (Inl err),
                  PatchPVC (pvc_Namespace claim) (pvc_Name claim) patch patched]\<rparr>))"
  by (auto simp: PVCCreateOrUpdate_def create_pvc_def patch_pvc_def split: prod.splits sum.splits)

text \<open>
  \<^verbatim>\<open>PVCResources\<close> answers only with a pair it read: the claim of that name, and the volume the
  claim names.
\<close>

theorem PVCResources_pair:
  assumes "run_state (PVCResources c ns name) w = (Inr (claim, v), w')"
  shows "calls w' = calls w @ [GetPVC ns name (Inr claim), GetPV (pvc_VolumeName claim) (Inr v)]"
  using assms by (auto simp: PVCResources_def get_pvc_def get_pv_def split: sum.splits)

theorem PVCResources_pair_witness:
  "calls (snd (run_state (PVCResources sample_client ''default'' ''pvc-1'') sample_world)) =
     calls sample_world @ [GetPVC ''default'' ''pvc-1'' (Inr sample_claim),
       GetPV (pvc_VolumeName sample_claim) (Inr sample_pv)]"
  by (rule PVCResources_pair [where c = sample_client and w = sample_world], rule prod_eqI)
    (simp_all add: PVCResources_def get_pvc_def get_pv_def sample_client_def)

text \<open>
  A namespace given to \<^verbatim>\<open>BuildConfig\<close> is kept, and the loader's is not asked for; with none, an
  error of the loader ends the call without a configuration; a path given takes precedence over the
  default one, which then plays no role.
\<close>

theorem BuildConfig_namespace:
  "(ns \<noteq> '''' \<longrightarrow> BuildConfig ld path ns = BuildConfig (ld\<lparr>ld_Namespace := other\<rparr>) path ns \<and>
      fst (snd (BuildConfig ld path ns)) = ns) \<and>
   (ns = '''' \<and> ld_Namespace ld (if path = '''' then ld_DefaultPath ld else path) = Inl err \<longrightarrow>
      BuildConfig ld path ns =
        (None, '''', Some (Wrapf ''failed to get namespace from kubeconfig: %w'' [] err))) \<and>
   (path \<noteq> '''' \<longrightarrow> BuildConfig ld path ns = BuildConfig (ld\<lparr>ld_DefaultPath := other_path\<rparr>) path ns)"
  by (auto simp: BuildConfig_def Let_def split: sum.split prod.split)

definition sample_loader :: "string config_loader" where
  "sample_loader = \<lparr>ld_DefaultPath = ''/etc/kubeconfig'', ld_Namespace = (\<lambda>path. Inl WaitTimeout),
     ld_ClientConfig = (\<lambda>path. (Some path, None))\<rparr>"

theorem BuildConfig_namespace_witness:
  "fst (snd (BuildConfig sample_loader ''/root/.kube/config'' ''kube-system'')) = ''kube-system'' \<and>
   BuildConfig sample_loader ''/root/.kube/config'' '''' =
     (None, '''', Some (Wrapf ''failed to get namespace from kubeconfig: %w'' [] WaitTimeout))"
proof -
  let ?ld = "sample_loader" and ?path = "''/root/.kube/config''"
  have given: "''kube-system'' \<noteq> ''''" by simp
  have none: "ld_Namespace ?ld (if ?path = '''' then ld_DefaultPath ?ld else ?path) = Inl WaitTimeout"
    by (simp add: sample_loader_def)
  show ?thesis
    using given none BuildConfig_namespace [of "''kube-system''" ?ld ?path "ld_Namespace ?ld" WaitTimeout]
      BuildConfig_namespace [of "''''" ?ld ?path "ld_Namespace ?ld" WaitTimeout] by blast
qed

end
