(* ===== verification/Json.thy ===== *)
theory Json
  imports Main "HOL-Library.AList"
begin

text \<open>
  What a text handed to the API server as a merge patch means: a reader for the JSON the code
  writes (RFC 8259 without \<open>\u\<close> escapes, numbers kept as text) and the merge of RFC 7386. It is a
  specification, not code of the repository; \<open>Patches\<close> uses it to state the effect of the patches.
\<close>

section \<open>Reading\<close>

datatype json =
    JNull | JBool bool | JNumber string | JString string | JArray "json list"
  | JObject "(string \<times> json) list"

datatype token = LBrace | RBrace | LBracket | RBracket | Comma | Colon | TString string | Word string | Bad

text \<open>The reader's modes: between tokens, in a string, after a backslash, in a word; text reversed.\<close>

datatype mode = Between | InString string | InEscape string | InWord string

definition is_space :: "char \<Rightarrow> bool" where
  "is_space c \<longleftrightarrow> c \<in> {CHR 0x20, CHR 0x09, CHR 0x0A, CHR 0x0D}"

definition punctuation :: "char \<Rightarrow> token option" where
  "punctuation c =
     (if c = CHR ''{'' then Some LBrace else if c = CHR ''}'' then Some RBrace
      else if c = CHR ''['' then Some LBracket else if c = CHR '']'' then Some RBracket
      else if c = CHR '','' then Some Comma else if c = CHR '':'' then Some Colon else None)"

definition escaped :: "char \<Rightarrow> char option" where
  "escaped c =
     (if c = CHR 0x22 \<or> c = CHR 0x5C \<or> c = CHR ''/'' then Some c
      else if c = CHR ''n'' then Some (CHR 0x0A) else if c = CHR ''t'' then Some (CHR 0x09)
      else if c = CHR ''r'' then Some (CHR 0x0D) else if c = CHR ''b'' then Some (CHR 0x08)
      else if c = CHR ''f'' then Some (CHR 0x0C) else None)"

definition control :: "char \<Rightarrow> bool" where
  "control c \<longleftrightarrow> (of_char c :: nat) < 0x20"

fun tokens :: "mode \<Rightarrow> string \<Rightarrow> token list" where
  "tokens Between [] = []"
| "tokens (InString acc) [] = [Bad]"
| "tokens (InEscape acc) [] = [Bad]"
| "tokens (InWord acc) [] = [Word (rev acc)]"
| "tokens Between (c # cs) =
     (if is_space c then tokens Between cs
      else if c = CHR 0x22 then tokens (InString []) cs
      else (case punctuation c of Some t \<Rightarrow> t # tokens Between cs | None \<Rightarrow> tokens (InWord [c]) cs))"
| "tokens (InString acc) (c # cs) =
     (if c = CHR 0x22 then TString (rev acc) # tokens Between cs
      else if c = CHR 0x5C then tokens (InEscape acc) cs
      else if control c then [Bad] else tokens (InString (c # acc)) cs)"
| "tokens (InEscape acc) (c # cs) =
     (case escaped c of Some e \<Rightarrow> tokens (InString (e # acc)) cs | None \<Rightarrow> [Bad])"
| "tokens (InWord acc) (c # cs) =
     (if is_space c then Word (rev acc) # tokens Between cs
      else if c = CHR 0x22 then [Bad]
      else (case punctuation c of Some t \<Rightarrow> Word (rev acc) # t # tokens Between cs
            | None \<Rightarrow> tokens (InWord (c # acc)) cs))"

definition is_number :: "string \<Rightarrow> bool" where
  "is_number s \<longleftrightarrow> s \<noteq> [] \<and> list_all (\<lambda>c. c \<in> set ''0123456789+-.eE'') s"

definition read_word :: "string \<Rightarrow> json option" where
  "read_word s =
     (if s = ''null'' then Some JNull else if s = ''true'' then Some (JBool True)
      else if s = ''false'' then Some (JBool False)
      else if is_number s then Some (JNumber s) else None)"

text \<open>
  Every call but the first follows a token read, so fuel of one more than the number of tokens
  is enough.
\<close>

fun parse_value :: "nat \<Rightarrow> token list \<Rightarrow> (json \<times> token list) option"
  and parse_members :: "nat \<Rightarrow> (string \<times> json) list \<Rightarrow> token list \<Rightarrow> (json \<times> token list) option"
  and parse_elements :: "nat \<Rightarrow> json list \<Rightarrow> token list \<Rightarrow> (json \<times> token list) option" where
  "parse_value 0 ts = None"
| "parse_value (Suc n) ts =
     (case ts of
        Word s # ts \<Rightarrow> (case read_word s of Some v \<Rightarrow> Some (v, ts) | None \<Rightarrow> None)
      | TString s # ts \<Rightarrow> Some (JString s, ts)
      | LBrace # RBrace # ts \<Rightarrow> Some (JObject [], ts)
      | LBrace # ts \<Rightarrow> parse_members n [] ts
      | LBracket # RBracket # ts \<Rightarrow> Some (JArray [], ts)
      | LBracket # ts \<Rightarrow> parse_elements n [] ts
      | _ \<Rightarrow> None)"
| "parse_members 0 acc ts = None"
| "parse_members (Suc n) acc ts =
     (case ts of
        TString k # Colon # ts \<Rightarrow>
          (case parse_value n ts of
             Some (v, Comma # ts) \<Rightarrow> parse_members n (acc @ [(k, v)]) ts
           | Some (v, RBrace # ts) \<Rightarrow> Some (JObject (acc @ [(k, v)]), ts)
           | _ \<Rightarrow> None)
      | _ \<Rightarrow> None)"
| "parse_elements 0 acc ts = None"
| "parse_elements (Suc n) acc ts =
     (case parse_value n ts of
        Some (v, Comma # ts) \<Rightarrow> parse_elements n (acc @ [v]) ts
      | Some (v, RBracket # ts) \<Rightarrow> Some (JArray (acc @ [v]), ts)
      | _ \<Rightarrow> None)"

definition read_json :: "string \<Rightarrow> json option" where
  "read_json s =
     (let ts = tokens Between s
      in case parse_value (Suc (length ts)) ts of Some (v, []) \<Rightarrow> Some v | _ \<Rightarrow> None)"

lemma parse_value_numeral:
  "parse_value (numeral k) = parse_value (Suc (pred_numeral k))"
  "parse_members (numeral k) = parse_members (Suc (pred_numeral k))"
  "parse_elements (numeral k) = parse_elements (Suc (pred_numeral k))"
  by (simp_all only: numeral_eq_Suc)

text \<open>Text that can stand between quotes as it is.\<close>

definition plain_text :: "string \<Rightarrow> bool" where
  "plain_text s \<longleftrightarrow> list_all (\<lambda>c. c \<noteq> CHR 0x22 \<and> c \<noteq> CHR 0x5C \<and> \<not> control c) s"

lemma tokens_plain_text:
  "plain_text s \<Longrightarrow> tokens (InString acc) (s @ rest) = tokens (InString (rev s @ acc)) rest"
  by (induction s arbitrary: acc) (auto simp: plain_text_def)

section \<open>Merging\<close>

fun members :: "json \<Rightarrow> (string \<times> json) list" where
  "members (JObject ms) = ms"
| "members v = []"

definition field :: "json \<Rightarrow> string \<Rightarrow> json option" where
  "field d k = map_of (members d) k"

text \<open>A field on a path, \<open>None\<close> where something on the way is missing.\<close>

fun field_at :: "json \<Rightarrow> string list \<Rightarrow> json option" where
  "field_at d [] = Some d"
| "field_at d (k # ks) = (case field d k of Some v \<Rightarrow> field_at v ks | None \<Rightarrow> None)"

function (sequential) merge :: "json \<Rightarrow> json \<Rightarrow> json"
  and merge_members :: "(string \<times> json) list \<Rightarrow> (string \<times> json) list \<Rightarrow> (string \<times> json) list" where
  "merge target (JObject ps) = JObject (merge_members (members target) ps)"
| "merge target p = p"
| "merge_members ts [] = ts"
| "merge_members ts ((k, p) # ps) =
     (if p = JNull then merge_members (AList.delete k ts) ps
      else merge_members (AList.update k (merge (case map_of ts k of Some t \<Rightarrow> t | None \<Rightarrow> JNull) p) ts) ps)"
  by pat_completeness auto
termination
  by (relation "measure (\<lambda>x. case x of Inl (t, p) \<Rightarrow> size p | Inr (ts, ps) \<Rightarrow> size_list (size_prod (\<lambda>_. 0) size) ps)") auto

text \<open>The merge at one field: fields the patch does not name stay.\<close>

lemma field_JObject: "field (JObject ms) k = map_of ms k"
  by (simp add: field_def)

lemma merge_null: "field (merge d (JObject [(k, JNull)])) k' = (if k' = k then None else field d k')"
  by (simp add: field_def AList.delete_conv')

lemma merge_one:
  "p \<noteq> JNull \<Longrightarrow> field (merge d (JObject [(k, p)])) k' =
     (if k' = k then Some (merge (case field d k of Some t \<Rightarrow> t | None \<Rightarrow> JNull) p) else field d k')"
  by (simp add: field_def AList.update_conv')

lemma merge_two:
  "p \<noteq> JNull \<Longrightarrow> q \<noteq> JNull \<Longrightarrow> k \<noteq> l \<Longrightarrow> field (merge d (JObject [(k, p), (l, q)])) k' =
     (if k' = k then Some (merge (case field d k of Some t \<Rightarrow> t | None \<Rightarrow> JNull) p)
      else if k' = l then Some (merge (case field d l of Some t \<Rightarrow> t | None \<Rightarrow> JNull) q)
      else field d k')"
  by (simp add: field_def AList.update_conv')

lemma merge_fresh_object:
  "distinct (map fst ps) \<Longrightarrow> list_all (\<lambda>(k, p). \<exists>s. p = JString s) ps \<Longrightarrow> set (map fst ps) \<inter> set (map fst ts) = {} \<Longrightarrow>
   merge_members ts ps = ts @ ps"
proof (induction ps arbitrary: ts)
  case Nil
  then show ?case by simp
next
  case (Cons x ps)
  obtain k s where x: "x = (k, JString s)" using Cons.prems by (cases x) auto
  have "AList.update k v ts = ts @ [(k, v)]" for v
    using Cons.prems x by (induction ts) auto
  with Cons x show ?case by auto
qed

end
