(* ===== verification/Patches.thy ===== *)
theory Patches
  imports Provisioning Tools Json
begin

text \<open>
  What the patches of the code do to an object. The bodies are texts put together from literals and
  fields of the claim; here they are read as JSON and merged into a document, and the effect on the
  fields of the volume, the claim and the node is proved. The texts are put together without
  quoting, so fields must be plain text, which the names and identifiers of Kubernetes are.
\<close>

definition raw_json :: "patch_body \<Rightarrow> json option" where
  "raw_json b = (case b of Raw s \<Rightarrow> read_json s | Marshalled c \<Rightarrow> None)"

lemma raw_retain:
  "raw_json retain_patch =
     Some (JObject [(''spec'', JObject [(''persistentVolumeReclaimPolicy'', JString ''Retain'')])])"
  by code_simp

lemma raw_unclaim: "raw_json unclaim_patch = Some (JObject [(''spec'', JObject [(''claimRef'', JNull)])])"
  by code_simp

lemma raw_cordon:
  "raw_json cordon_patch = Some (JObject [(''spec'', JObject [(''unschedulable'', JBool True)])])"
  by code_simp

lemma raw_uncordon:
  "raw_json uncordon_patch = Some (JObject [(''spec'', JObject [(''unschedulable'', JBool False)])])"
  by code_simp

section \<open>The reference to the claim\<close>

definition reference_json :: "pvc \<Rightarrow> (string \<times> json) list" where
  "reference_json claim =
     [(''apiVersion'', JString (pvc_APIVersion claim)), (''kind'', JString (pvc_Kind claim)),
      (''name'', JString (pvc_Name claim)), (''namespace'', JString (pvc_Namespace claim)),
      (''uid'', JString (pvc_UID claim))]"

definition plain_claim :: "pvc \<Rightarrow> bool" where
  "plain_claim claim \<longleftrightarrow> list_all plain_text
     [pvc_APIVersion claim, pvc_Kind claim, pvc_Name claim, pvc_Namespace claim, pvc_UID claim]"

lemma tokens_space: "tokens Between (nl n @ s) = tokens Between s"
proof -
  have "tokens Between (replicate n (CHR 0x09) @ s) = tokens Between s"
    by (induction n) (simp_all add: is_space_def)
  then show ?thesis by (simp add: nl_def is_space_def)
qed

lemma tokens_quoted:
  "plain_text s \<Longrightarrow> tokens (InString acc) (s @ CHR 0x22 # rest) = TString (rev acc @ s) # tokens Between rest"
  by (simp add: tokens_plain_text)

lemma claim_ref_tokens:
  assumes "plain_claim claim"
  shows "tokens Between (case claim_ref_patch claim of Raw s \<Rightarrow> s | Marshalled c \<Rightarrow> []) =
    [LBrace, TString ''spec'', Colon, LBrace,
     TString ''persistentVolumeReclaimPolicy'', Colon, TString ''Delete'', Comma,
     TString ''claimRef'', Colon, LBrace,
     TString ''apiVersion'', Colon, TString (pvc_APIVersion claim), Comma,
     TString ''kind'', Colon, TString (pvc_Kind claim), Comma,
     TString ''name'', Colon, TString (pvc_Name claim), Comma,
     TString ''namespace'', Colon, TString (pvc_Namespace claim), Comma,
     TString ''uid'', Colon, TString (pvc_UID claim),
     RBrace, RBrace, RBrace]"
  using assms
  by (simp add: plain_claim_def claim_ref_patch_def PersistentVolumeReclaimDelete_def tokens_space
      tokens_quoted is_space_def punctuation_def control_def)

lemma raw_claim_ref:
  assumes "plain_claim claim"
  shows "raw_json (claim_ref_patch claim) =
    Some (JObject [(''spec'', JObject [(''persistentVolumeReclaimPolicy'', JString ''Delete''),
                                       (''claimRef'', JObject (reference_json claim))])])"
proof -
  obtain s where s: "claim_ref_patch claim = Raw s" by (simp add: claim_ref_patch_def)
  from claim_ref_tokens [OF assms] s show ?thesis
    by (simp add: raw_json_def read_json_def Let_def parse_value_numeral reference_json_def)
qed

section \<open>The finalizers\<close>

lemma keep_finalizers_filter: "keep_finalizers fs = filter (\<lambda>f. f \<noteq> pvc_protection) fs"
  by (induction fs) auto

fun listed :: "string list \<Rightarrow> token list" where
  "listed [] = []"
| "listed [f] = [TString f]"
| "listed (f # g # fs) = TString f # Comma # listed (g # fs)"

lemma tokens_listed:
  \<open>fs \<noteq> [] \<Longrightarrow> list_all plain_text fs \<Longrightarrow>
   tokens (InString []) (strings_Join fs ''", "'' @ CHR 0x22 # rest) = listed fs @ tokens Between rest\<close>
  by (induction fs rule: listed.induct)
    (simp_all add: tokens_quoted is_space_def punctuation_def)

lemma parse_listed:
  "fs \<noteq> [] \<Longrightarrow> length fs < n \<Longrightarrow>
   parse_elements n acc (listed fs @ RBracket # ts) = Some (JArray (acc @ map JString fs), ts)"
proof (induction fs arbitrary: n acc rule: listed.induct)
  case (2 f)
  then obtain m where "n = Suc (Suc m)" by (cases n; cases "n - 1") auto
  then show ?case by simp
next
  case (3 f g fs)
  then obtain m where n: "n = Suc m" "length (g # fs) < m" by (cases n) auto
  then have "parse_value m (TString f # xs) = Some (JString f, xs)" for xs by (cases m) auto
  with 3 n show ?case by simp
qed simp

lemma length_listed: "fs \<noteq> [] \<Longrightarrow> length fs \<le> length (listed fs)"
  by (induction fs rule: listed.induct) auto

lemma raw_finalizers:
  assumes "list_all plain_text (keep_finalizers fs)"
  shows "raw_json (finalizers_patch fs) =
    Some (JObject [(''metadata'', JObject [(''finalizers'',
       if keep_finalizers fs = [] then JNull else JArray (map JString (keep_finalizers fs)))])])"
proof (cases "keep_finalizers fs")
  case Nil
  then have "finalizers_patch fs = finalizers_patch []" by (simp add: finalizers_patch_def)
  moreover have "raw_json (finalizers_patch []) =
      Some (JObject [(''metadata'', JObject [(''finalizers'', JNull)])])" by code_simp
  ultimately show ?thesis using Nil by simp
next
  case (Cons f rest)
  let ?keep = "keep_finalizers fs"
  let ?ts = "[LBrace, TString ''metadata'', Colon, LBrace, TString ''finalizers'', Colon, LBracket] @
      listed ?keep @ [RBracket, RBrace, RBrace]"
  have body: \<open>finalizers_patch fs =
      Raw (''{"metadata": {"finalizers": ["'' @ strings_Join ?keep ''", "'' @ CHR 0x22 # '']}}'')\<close>
    using Cons by (simp add: finalizers_patch_def)
  have toks: \<open>tokens Between (''{"metadata": {"finalizers": ["'' @ strings_Join ?keep ''", "'' @ CHR 0x22 # '']}}'') = ?ts\<close>
    using assms Cons tokens_listed [of "f # rest" "'']}}''"]
    by (simp add: is_space_def punctuation_def control_def)
  moreover obtain ts where "listed ?keep = TString f # ts"
    using Cons by (cases rest) auto
  moreover have "parse_elements n [] (listed ?keep @ RBracket # rest') = Some (JArray (map JString ?keep), rest')"
    if "length ?keep < n" for n rest'
    using parse_listed [of ?keep n "[]" rest'] that Cons by simp
  ultimately show ?thesis
    using Cons length_listed [of ?keep]
    unfolding body raw_json_def read_json_def patch_body.case toks Let_def
    by (simp del: parse_elements.simps)
qed

section \<open>Properties\<close>

text \<open>Two documents that differ at most in one field of one top-level object.\<close>

definition same_but :: "string \<Rightarrow> string set \<Rightarrow> json \<Rightarrow> json \<Rightarrow> bool" where
  "same_but top_field names d d' \<longleftrightarrow>
     (\<forall>k. k \<noteq> top_field \<longrightarrow> field d' k = field d k) \<and>
     (\<forall>k. k \<notin> names \<longrightarrow> field_at d' [top_field, k] = field_at d [top_field, k])"

lemma field_at_two: "field_at d [k, l] = (case field d k of Some v \<Rightarrow> field v l | None \<Rightarrow> None)"
  by (simp split: option.split)

lemma field_JNull [simp]: "field JNull k = None"
  by (simp add: field_def)

lemma merge_nested:
  "field_at (merge d (JObject [(k, JObject ps)])) [k, l] =
     field (merge (case field d k of Some t \<Rightarrow> t | None \<Rightarrow> JNull) (JObject ps)) l"
  by (simp add: field_at_two merge_one del: field_at.simps merge.simps)

lemma merge_nested_same:
  assumes "\<And>t l. l \<notin> names \<Longrightarrow> field (merge t (JObject ps)) l = field t l"
  shows "same_but k names d (merge d (JObject [(k, JObject ps)]))"
  using assms
  by (auto simp: same_but_def merge_nested field_at_two merge_one
      simp del: field_at.simps merge.simps split: option.split)

text \<open>
  The three patches of the volume, read as JSON and merged into any document. The first sets the
  reclaim policy to \<^verbatim>\<open>Retain\<close>; the second removes the reference to the old claim; the third, on a
  volume without a reference, sets the reclaim policy to \<^verbatim>\<open>Delete\<close> and the reference to exactly the
  five fields of the claim. No patch changes anything else.
\<close>

lemma volume_patches_effect:
  assumes "plain_claim claim"
  shows "\<exists>retain unclaim ref.
     raw_json retain_patch = Some retain \<and> raw_json unclaim_patch = Some unclaim \<and>
     raw_json (claim_ref_patch claim) = Some ref \<and>
     (\<forall>d. field_at (merge d retain) [''spec'', ''persistentVolumeReclaimPolicy''] = Some (JString ''Retain'') \<and>
        same_but ''spec'' {''persistentVolumeReclaimPolicy''} d (merge d retain)) \<and>
     (\<forall>d. field_at (merge d unclaim) [''spec'', ''claimRef''] = None \<and>
        same_but ''spec'' {''claimRef''} d (merge d unclaim)) \<and>
     (\<forall>d. field_at (merge d ref) [''spec'', ''persistentVolumeReclaimPolicy''] = Some (JString ''Delete'') \<and>
        (field_at d [''spec'', ''claimRef''] = None \<longrightarrow>
           field_at (merge d ref) [''spec'', ''claimRef''] = Some (JObject (reference_json claim))) \<and>
        same_but ''spec'' {''persistentVolumeReclaimPolicy'', ''claimRef''} d (merge d ref))"
proof (intro exI conjI allI impI)
  show "raw_json retain_patch = Some (JObject [(''spec'', JObject [(''persistentVolumeReclaimPolicy'', JString ''Retain'')])])"
    by (rule raw_retain)
  show "raw_json unclaim_patch = Some (JObject [(''spec'', JObject [(''claimRef'', JNull)])])"
    by (rule raw_unclaim)
  show "raw_json (claim_ref_patch claim) =
      Some (JObject [(''spec'', JObject [(''persistentVolumeReclaimPolicy'', JString ''Delete''),
                                         (''claimRef'', JObject (reference_json claim))])])"
    by (rule raw_claim_ref [OF assms])
next
  fix d
  show "field_at (merge d (JObject [(''spec'', JObject [(''persistentVolumeReclaimPolicy'', JString ''Retain'')])]))
      [''spec'', ''persistentVolumeReclaimPolicy''] = Some (JString ''Retain'')"
    unfolding merge_nested by (subst merge_one) simp_all
  show "same_but ''spec'' {''persistentVolumeReclaimPolicy''} d
      (merge d (JObject [(''spec'', JObject [(''persistentVolumeReclaimPolicy'', JString ''Retain'')])]))"
    by (rule merge_nested_same) (simp add: merge_one del: merge.simps)
  show "field_at (merge d (JObject [(''spec'', JObject [(''claimRef'', JNull)])])) [''spec'', ''claimRef''] = None"
    unfolding merge_nested by (simp add: merge_null del: merge.simps)
  show "same_but ''spec'' {''claimRef''} d (merge d (JObject [(''spec'', JObject [(''claimRef'', JNull)])]))"
    by (rule merge_nested_same) (simp add: merge_null del: merge.simps)
next
  fix d
  let ?ref = "JObject [(''spec'', JObject [(''persistentVolumeReclaimPolicy'', JString ''Delete''),
      (''claimRef'', JObject (reference_json claim))])]"
  show "field_at (merge d ?ref) [''spec'', ''persistentVolumeReclaimPolicy''] = Some (JString ''Delete'')"
    unfolding merge_nested by (subst merge_two) simp_all
  show "same_but ''spec'' {''persistentVolumeReclaimPolicy'', ''claimRef''} d (merge d ?ref)"
    by (rule merge_nested_same) (simp add: merge_two del: merge.simps)
  assume "field_at d [''spec'', ''claimRef''] = None"
  then have "field (case field d ''spec'' of Some t \<Rightarrow> t | None \<Rightarrow> JNull) ''claimRef'' = None"
    by (simp split: option.splits)
  moreover have "merge_members [] (reference_json claim) = reference_json claim"
    by (simp add: merge_fresh_object reference_json_def)
  ultimately show "field_at (merge d ?ref) [''spec'', ''claimRef''] = Some (JObject (reference_json claim))"
    unfolding merge_nested by (subst merge_two) simp_all
qed

text \<open>
  Without the second patch the third does not replace a reference but mixes it with the old one:
  a field the new reference does not name, such as the resource version, stays that of the old claim.
\<close>

theorem claim_ref_patch_mixes:
  assumes "plain_claim claim" and "field_at d [''spec'', ''claimRef'', ''resourceVersion''] = Some v"
  shows "\<exists>ref. raw_json (claim_ref_patch claim) = Some ref \<and>
     field_at (merge d ref) [''spec'', ''claimRef'', ''resourceVersion''] = Some v \<and>
     field_at (merge d ref) [''spec'', ''claimRef'', ''uid''] = Some (JString (pvc_UID claim))"
proof -
  let ?ref = "JObject [(''spec'', JObject [(''persistentVolumeReclaimPolicy'', JString ''Delete''),
      (''claimRef'', JObject (reference_json claim))])]"
  from assms(2) obtain s r where s: "field d ''spec'' = Some s" and r: "field s ''claimRef'' = Some r"
    and v: "field r ''resourceVersion'' = Some v"
    by (auto split: option.splits)
  have "field (merge s (JObject [(''persistentVolumeReclaimPolicy'', JString ''Delete''),
      (''claimRef'', JObject (reference_json claim))])) ''claimRef'' = Some (merge r (JObject (reference_json claim)))"
    using r by (subst merge_two) auto
  moreover have "field (merge d ?ref) ''spec'' = Some (merge s (JObject [(''persistentVolumeReclaimPolicy'', JString ''Delete''),
      (''claimRef'', JObject (reference_json claim))]))"
    using s by (subst merge_one) auto
  moreover have "field (merge r (JObject (reference_json claim))) ''resourceVersion'' = Some v"
    "field (merge r (JObject (reference_json claim))) ''uid'' = Some (JString (pvc_UID claim))"
    using v by (simp_all add: reference_json_def field_def AList.update_conv')
  ultimately show ?thesis
    using raw_claim_ref [OF assms(1)] by (simp del: merge.simps)
qed

theorem claim_ref_patch_mixes_witness:
  "\<exists>ref. raw_json (claim_ref_patch sample_claim) = Some ref \<and>
     field_at (merge (JObject [(''spec'', JObject [(''claimRef'', JObject [(''resourceVersion'', JString ''7'')])])]) ref)
       [''spec'', ''claimRef'', ''resourceVersion''] = Some (JString ''7'')"
proof -
  have plain: "plain_claim sample_claim" by code_simp
  have "field_at (JObject [(''spec'', JObject [(''claimRef'', JObject [(''resourceVersion'', JString ''7'')])])])
      [''spec'', ''claimRef'', ''resourceVersion''] = Some (JString ''7'')" by (simp add: field_def)
  from claim_ref_patch_mixes [OF plain this] show ?thesis by blast
qed

text \<open>
  C26: the patch of the claim's finalizers, read as JSON and merged into any document, leaves in
  \<^verbatim>\<open>metadata.finalizers\<close> the finalizers of the claim without the protection one, in order, removes the
  field when none is left, and changes nothing else.
\<close>

theorem finalizers_patch_effect:
  assumes "list_all plain_text fs"
  shows "\<exists>p. raw_json (finalizers_patch fs) = Some p \<and>
     (\<forall>d. field_at (merge d p) [''metadata'', ''finalizers''] =
        (let kept = filter (\<lambda>f. f \<noteq> ''kubernetes.io/pvc-protection'') fs
         in if kept = [] then None else Some (JArray (map JString kept))) \<and>
        same_but ''metadata'' {''finalizers''} d (merge d p))"
proof -
  have kept: "keep_finalizers fs = filter (\<lambda>f. f \<noteq> ''kubernetes.io/pvc-protection'') fs"
    by (simp add: keep_finalizers_filter pvc_protection_def)
  with assms have "list_all plain_text (keep_finalizers fs)" by (auto simp: list_all_iff)
  note raw = raw_finalizers [OF this]
  show ?thesis
  proof (cases "keep_finalizers fs = []")
    case True
    then show ?thesis
      using raw merge_nested_same [of "{''finalizers''}" "[(''finalizers'', JNull)]" "''metadata''"] kept
      by (simp add: merge_nested merge_null del: merge.simps field_at.simps)
  next
    case False
    let ?v = "JArray (map JString (keep_finalizers fs))"
    have "field (merge t (JObject [(''finalizers'', ?v)])) l = (if l = ''finalizers'' then Some ?v else field t l)" for t l
      by (subst merge_one) auto
    then show ?thesis
      using False raw merge_nested_same [of "{''finalizers''}" "[(''finalizers'', ?v)]" "''metadata''"] kept
      by (simp add: merge_nested del: merge.simps field_at.simps)
  qed
qed

theorem finalizers_patch_effect_witness:
  "\<exists>p. raw_json (finalizers_patch [''kubernetes.io/pvc-protection'', ''example.com/keep'']) = Some p \<and>
     (\<forall>d. field_at (merge d p) [''metadata'', ''finalizers''] = Some (JArray [JString ''example.com/keep'']))"
proof -
  have "list_all plain_text [''kubernetes.io/pvc-protection'', ''example.com/keep'']" by code_simp
  from finalizers_patch_effect [OF this] show ?thesis by (auto simp: Let_def)
qed

end
