(* ===== verification/VolumeState.thy ===== *)
theory VolumeState
  imports ProvisionProps Patches
begin

text \<open>
  From calls to documents: the volume patches of a run of \<^verbatim>\<open>Provision\<close> that went through, merged in
  their order into the volume's document, and the state the volume is left in, whichever way the
  run ends.
\<close>

section \<open>The volume patches of a log\<close>

definition applied :: "call list \<Rightarrow> (string \<times> patch_body) list" where
  "applied tr = List.map_filter
     (\<lambda>x. case x of PatchPV name b (Inr v) \<Rightarrow> Some (name, b) | _ \<Rightarrow> None) tr"

lemma applied_simps [simp]:
  "applied [] = []"
  "applied (tr @ tr') = applied tr @ applied tr'"
  "applied (x # tr) = (case x of PatchPV name b (Inr v) \<Rightarrow> [(name, b)] | _ \<Rightarrow> []) @ applied tr"
  by (simp_all add: applied_def List.map_filter_def split: call.split sum.split)

text \<open>The patches of a phase.\<close>

fun phase_applied :: "proto \<Rightarrow> phase \<Rightarrow> (string \<times> patch_body) list" where
  "phase_applied x (Retained c) = [(pvc_VolumeName c, retain_patch)]"
| "phase_applied x (Unprotected c) = [(pvc_VolumeName c, retain_patch)]"
| "phase_applied x (ClaimGone c) = [(pvc_VolumeName c, retain_patch)]"
| "phase_applied x (Freed c v) = [(pvc_VolumeName c, retain_patch), (pvc_VolumeName c, unclaim_patch)]"
| "phase_applied x (Bonded c v) = [(pvc_VolumeName c, retain_patch), (pvc_VolumeName c, unclaim_patch)]"
| "phase_applied x (Settled c v) = [(pvc_VolumeName c, retain_patch), (pvc_VolumeName c, unclaim_patch),
     (pv_Name v, claim_ref_patch (opt_PVC (pr_opts x)))]"
| "phase_applied x (Stopped ph) = phase_applied x ph"
| "phase_applied x ph = []"

lemma bound_phase_applied [simp]: "phase_applied x (bound_phase ph claim) = []"
  by (cases ph) auto

lemma bound_phase_not_Stopped [simp]: "bound_phase ph claim \<noteq> Stopped q" "Stopped q \<noteq> bound_phase ph claim"
  by (cases ph; simp)+

lemma waiting_applied [simp]: "waiting x ph \<Longrightarrow> phase_applied x ph = []"
  by (cases ph) auto

lemma applied_reach: "proto_reach x tr ph \<Longrightarrow> applied tr = phase_applied x ph"
proof (induction rule: proto_reach.induct)
  case reach_start
  then show ?case by simp
next
  case (reach_step tr ph c ph')
  from reach_step.hyps(2) reach_step.IH show ?case
    by (cases rule: proto_step.cases) auto
qed

section \<open>The document of a volume\<close>

text \<open>A patch that is not a readable text leaves the document as it is; none of the three is one.\<close>

definition merge_text :: "json \<Rightarrow> patch_body \<Rightarrow> json" where
  "merge_text d b = (case raw_json b of Some p \<Rightarrow> merge d p | None \<Rightarrow> d)"

definition volume_after :: "string \<Rightarrow> call list \<Rightarrow> json \<Rightarrow> json" where
  "volume_after name tr d = foldl merge_text d (map snd (filter (\<lambda>p. fst p = name) (applied tr)))"

abbreviation policy :: "json \<Rightarrow> json option" where
  "policy d \<equiv> field_at d [''spec'', ''persistentVolumeReclaimPolicy'']"

abbreviation reference :: "json \<Rightarrow> json option" where
  "reference d \<equiv> field_at d [''spec'', ''claimRef'']"

lemma same_but_trans: "same_but k A d e \<Longrightarrow> same_but k B e f \<Longrightarrow> B \<subseteq> A \<Longrightarrow> same_but k A d f"
  by (auto simp: same_but_def)

lemma same_but_field: "same_but k A d e \<Longrightarrow> l \<notin> A \<Longrightarrow> field_at e [k, l] = field_at d [k, l]"
  by (auto simp: same_but_def)

definition retained :: "json \<Rightarrow> json \<Rightarrow> bool" where
  "retained d e \<longleftrightarrow> policy e = Some (JString ''Retain'') \<and> reference e = reference d \<and>
     same_but ''spec'' {''persistentVolumeReclaimPolicy'', ''claimRef''} d e"

definition freed :: "json \<Rightarrow> json \<Rightarrow> bool" where
  "freed d e \<longleftrightarrow> policy e = Some (JString ''Retain'') \<and> reference e = None \<and>
     same_but ''spec'' {''persistentVolumeReclaimPolicy'', ''claimRef''} d e"

definition handed_over :: "pvc \<Rightarrow> json \<Rightarrow> json \<Rightarrow> bool" where
  "handed_over claim d e \<longleftrightarrow> policy e = Some (JString ''Delete'') \<and>
     reference e = Some (JObject (reference_json claim)) \<and>
     same_but ''spec'' {''persistentVolumeReclaimPolicy'', ''claimRef''} d e"

lemmas volume_states = retained_def freed_def handed_over_def

lemma retain_step: "retained d (merge_text d retain_patch)"
proof -
  have "plain_claim zero_pvc" by code_simp
  from volume_patches_effect [OF this] obtain p where p: "raw_json retain_patch = Some p"
    "policy (merge d p) = Some (JString ''Retain'')"
    "same_but ''spec'' {''persistentVolumeReclaimPolicy''} d (merge d p)" by blast
  moreover from this have "reference (merge d p) = reference d" by (intro same_but_field) auto
  moreover from p have "same_but ''spec'' {''persistentVolumeReclaimPolicy'', ''claimRef''} d (merge d p)"
    by (auto simp: same_but_def)
  ultimately show ?thesis by (simp add: retained_def merge_text_def del: field_at.simps)
qed

lemma unclaim_step:
  assumes "retained d e"
  shows "freed d (merge_text e unclaim_patch)"
proof -
  have "plain_claim zero_pvc" by code_simp
  from volume_patches_effect [OF this] obtain p where p: "raw_json unclaim_patch = Some p"
    "reference (merge e p) = None"
    "same_but ''spec'' {''claimRef''} e (merge e p)" by blast
  moreover from p(3) have "policy (merge e p) = policy e" by (rule same_but_field) simp
  moreover have "same_but ''spec'' {''persistentVolumeReclaimPolicy'', ''claimRef''} d (merge e p)"
    using assms p(3) by (auto simp: retained_def intro: same_but_trans)
  ultimately show ?thesis using assms by (simp add: volume_states merge_text_def del: field_at.simps)
qed

lemma claim_ref_step:
  assumes "freed d e" and "plain_claim claim"
  shows "handed_over claim d (merge_text e (claim_ref_patch claim))"
proof -
  from assms(1) have none: "reference e = None" by (simp add: freed_def)
  from volume_patches_effect [OF assms(2)] none obtain p where p: "raw_json (claim_ref_patch claim) = Some p"
    "policy (merge e p) = Some (JString ''Delete'')"
    "reference (merge e p) = Some (JObject (reference_json claim))"
    "same_but ''spec'' {''persistentVolumeReclaimPolicy'', ''claimRef''} e (merge e p)" by blast
  moreover have "same_but ''spec'' {''persistentVolumeReclaimPolicy'', ''claimRef''} d (merge e p)"
    using assms(1) p(4) by (auto simp: freed_def intro: same_but_trans)
  ultimately show ?thesis by (simp add: handed_over_def merge_text_def del: field_at.simps)
qed

lemma stopped_applied:
  "proto_reach x tr ph \<Longrightarrow> ph = Stopped q \<Longrightarrow> \<exists>n. phase_applied x q \<in>
     {[], [(n, retain_patch)], [(n, retain_patch), (n, unclaim_patch)]}"
proof (induction arbitrary: q rule: proto_reach.induct)
  case reach_start
  then show ?case by simp
next
  case (reach_step tr ph c ph')
  from reach_step.hyps(2) reach_step.prems show ?case
    by (cases rule: proto_step.cases) auto
qed

lemma given_up_applied:
  assumes "proto_reach x tr ph" and "given_up ph"
  shows "\<exists>n. applied tr \<in>
     {[], [(n, retain_patch)], [(n, retain_patch), (n, unclaim_patch)]}"
  unfolding applied_reach [OF assms(1)]
  using assms(2) stopped_applied [OF assms(1)] by (auto simp: given_up_def)

lemma volume_after_given_up:
  assumes "applied tr \<in>
     {[], [(n, retain_patch)], [(n, retain_patch), (n, unclaim_patch)]}"
  shows "volume_after name tr d = d \<or> retained d (volume_after name tr d) \<or> freed d (volume_after name tr d)"
  using assms retain_step [of d] unclaim_step [OF retain_step, of d] by (auto simp: volume_after_def)

text \<open>A volume nobody is going to delete because of us.\<close>

definition unharmed :: "json \<Rightarrow> json \<Rightarrow> bool" where
  "unharmed d e \<longleftrightarrow> e = d \<or> retained d e \<or> freed d e"

lemma unharmed_refl [simp]: "unharmed d d"
  by (simp add: unharmed_def)

lemma retained_trans: "retained d e \<Longrightarrow> retained e f \<Longrightarrow> retained d f"
  by (auto simp: retained_def intro: same_but_trans)

lemma freed_trans:
  "retained d e \<Longrightarrow> freed e f \<Longrightarrow> freed d f"
  "freed d e \<Longrightarrow> retained e f \<Longrightarrow> freed d f"
  "freed d e \<Longrightarrow> freed e f \<Longrightarrow> freed d f"
  by (auto simp: retained_def freed_def intro: same_but_trans)

lemma unharmed_trans: "unharmed d e \<Longrightarrow> unharmed e f \<Longrightarrow> unharmed d f"
  unfolding unharmed_def using retained_trans freed_trans by blast

text \<open>The state of a volume after one run, by its result.\<close>

lemma run_volume_state:
  assumes "wf_provisioner p" and "backoff_contract (hp_client p)" and "plain_claim (opt_PVC opts)"
    and "\<forall>n b x. PatchPV n b (Inr x) \<in> set (provision_calls p opts w) \<longrightarrow> pv_Name x = n"
  shows "case provision_returns p opts w of
       Provisioned (Some v) st err \<Rightarrow>
         (\<exists>sc. chosen_class p opts = Some sc \<and>
           (let after = volume_after name (provision_calls p opts w) d in
            if name \<noteq> pv_Name v then after = d
            else if sc_ReclaimPolicy sc = Some ''Delete'' then handed_over (opt_PVC opts) d after
            else freed d after))
     | _ \<Rightarrow>
         unharmed d (volume_after name (provision_calls p opts w) d)"
  using assms(1,2)
proof (cases rule: Provision_ends [of p opts w])
  case idle
  then show ?thesis
    by (auto simp: volume_after_def unharmed_def split: provision_result.split option.split)
next
  case (failure sc n ph err)
  from given_up_applied [OF failure(3,4)] obtain k where
    "applied (provision_calls p opts w) \<in> {[], [(k, retain_patch)], [(k, retain_patch), (k, unclaim_patch)]}" by blast
  from volume_after_given_up [OF this, of name d] show ?thesis
    unfolding failure(5) by (auto simp: unharmed_def)
next
  case (success sc n claim v)
  let ?x = "protocol_of p opts sc n"
  from final_phase_freed [OF success(3)] assms(4) have vol: "pv_Name v = pvc_VolumeName claim" by blast
  have ap: "applied (provision_calls p opts w) = [(pv_Name v, retain_patch), (pv_Name v, unclaim_patch)] @
      (if deletes_volume ?x then [(pv_Name v, claim_ref_patch (opt_PVC opts))] else [])"
    using applied_reach [OF success(3)] vol by auto
  have freed: "freed d (merge_text (merge_text d retain_patch) unclaim_patch)"
    by (intro unclaim_step retain_step)
  from claim_ref_step [OF this assms(3)] freed ap success(1) show ?thesis
    unfolding success(4)
    by (auto simp: volume_after_def deletes_volume_def PersistentVolumeReclaimDelete_def)
qed

section \<open>Properties\<close>

text \<open>
  C1: the state \<^verbatim>\<open>Provision\<close> leaves a volume in, when its name is the one the API server answers the
  patches with. A run that returns a volume leaves it free (no claim reference, policy \<^verbatim>\<open>Retain\<close>) or,
  if the chosen class reclaims by Delete, handed over: the reference is exactly the requesting
  claim and the policy is \<^verbatim>\<open>Delete\<close>; no other volume is touched. A run that ends in an error leaves
  every volume as it was, retained, or free: never to be deleted on our account. Nothing else of a
  volume's document changes.
\<close>

theorem Provision_volume_state:
  assumes "wf_provisioner p" and "backoff_contract (hp_client p)" and "plain_claim (opt_PVC opts)"
    and "\<forall>n b x. PatchPV n b (Inr x) \<in> set (provision_calls p opts w) \<longrightarrow> pv_Name x = n"
  shows "case provision_returns p opts w of
       Provisioned (Some v) st err \<Rightarrow>
         (\<exists>sc. chosen_class p opts = Some sc \<and>
           (let after = volume_after name (provision_calls p opts w) d in
            if name \<noteq> pv_Name v then after = d
            else if sc_ReclaimPolicy sc = Some ''Delete'' then handed_over (opt_PVC opts) d after
            else freed d after))
     | _ \<Rightarrow>
         unharmed d (volume_after name (provision_calls p opts w) d)"
  using assms by (rule run_volume_state)

theorem Provision_volume_state_witness:
  "handed_over user_claim (JObject []) (volume_after ''pv-1'' sample_calls (JObject []))"
proof -
  have plain: "plain_claim (opt_PVC sample_opts)"
    unfolding sample_opts_def by code_simp
  have names: "\<forall>n b x. PatchPV n b (Inr x) \<in>
      set (provision_calls (sample_provisioner sample_client ''auto'') sample_opts sample_world) \<longrightarrow> pv_Name x = n"
    unfolding sample_provision sample_calls_def by (auto simp: sample_pv_def)
  have "pv_Name released_pv = ''pv-1''" by (simp add: released_pv_def sample_pv_def)
  with Provision_volume_state [OF sample_ok plain names, where name = "''pv-1''" and d = "JObject []"]
  show ?thesis
    unfolding sample_provision
    by (simp add: Let_def sample_chosen, simp add: proxmox_class_def PersistentVolumeReclaimDelete_def)
      (simp add: sample_opts_def)
qed

end
