(* ===== verification/Interleaving.thy ===== *)
theory Interleaving
  imports Footprint VolumeState
begin

text \<open>
  Several provisionings at once. Each run sees the others as part of its environment, so what is
  proved of one run holds in parallel; here it is shown that their calls, interleaved in any order,
  leave each object in the state its own run gives it. The locale \<open>object_view\<close> is the interface.
\<close>

section \<open>Interleavings of any number of logs\<close>

fun merges :: "'a list list \<Rightarrow> 'a list set" where
  "merges [] = {[]}"
| "merges (xs # xss) = (\<Union>ys\<in>merges xss. shuffles xs ys)"

lemma set_merges: "tr \<in> merges xss \<Longrightarrow> set tr = (\<Union>xs\<in>set xss. set xs)"
  by (induction xss arbitrary: tr) (auto simp: set_shuffles)

lemma merges_two: "merges [xs, ys] = shuffles xs ys"
  by simp

section \<open>One object, seen through the calls that write it\<close>

text \<open>
  What a log makes of the document of one object, when a call that does not write the object leaves
  the document alone. An interleaving makes of it what its only writer does.
\<close>

locale object_view =
  fixes after :: "call list \<Rightarrow> 's \<Rightarrow> 's"
    and target :: target
  assumes after_Nil: "after [] s = s"
    and after_Cons: "after (c # tr) s = after tr (after [c] s)"
    and after_other: "target \<notin> call_writes c \<Longrightarrow> after [c] s = s"
begin

lemma after_append: "after (tr @ tr') s = after tr' (after tr s)"
proof (induction tr arbitrary: s)
  case (Cons c tr)
  then show ?case by (metis after_Cons append_Cons)
qed (simp add: after_Nil)

lemma after_others: "target \<notin> writes tr \<Longrightarrow> after tr s = s"
proof (induction tr)
  case (Cons c tr)
  then show ?case using after_Cons [of c tr s] after_other [of c s] by simp
qed (simp add: after_Nil)

lemma after_shuffle: "tr \<in> shuffles xs ys \<Longrightarrow> target \<notin> writes ys \<Longrightarrow> after tr s = after xs s"
proof (induction xs ys arbitrary: tr s rule: shuffles.induct)
  case (1 ys)
  then show ?case by (simp add: after_others after_Nil)
next
  case (2 xs)
  then show ?case by simp
next
  case (3 x xs y ys)
  then consider (left) zs where "tr = x # zs" "zs \<in> shuffles xs (y # ys)"
    | (right) zs where "tr = y # zs" "zs \<in> shuffles (x # xs) ys"
    by auto
  then show ?case
  proof cases
    case left
    with 3 show ?thesis using after_Cons [of x zs s] after_Cons [of x xs s] by simp
  next
    case right
    with 3 show ?thesis using after_Cons [of y zs s] after_other [of y s] by simp
  qed
qed

lemma after_merges:
  "tr \<in> merges xss \<Longrightarrow> i < length xss \<Longrightarrow> \<forall>j<length xss. j \<noteq> i \<longrightarrow> target \<notin> writes (xss ! j) \<Longrightarrow>
   after tr s = after (xss ! i) s"
proof (induction xss arbitrary: tr i)
  case (Cons xs xss)
  then obtain ys where ys: "ys \<in> merges xss" "tr \<in> shuffles xs ys" by auto
  show ?case
  proof (cases i)
    case 0
    have "target \<notin> writes zs" if "zs \<in> set xss" for zs
      using that Cons.prems(3) 0 unfolding in_set_conv_nth by force
    then have "target \<notin> writes ys" using set_merges [OF ys(1)] by (auto simp: writes_def)
    with after_shuffle [OF ys(2)] 0 show ?thesis by simp
  next
    case (Suc k)
    with Cons.prems(3) have "target \<notin> writes xs" by force
    with after_shuffle [of tr ys xs s] ys(2) have "after tr s = after ys s" by (simp add: shuffles_commutes)
    also have "after ys s = after (xss ! k) s" using Cons.IH [OF ys(1), of k] Cons.prems(2,3) Suc by force
    finally show ?thesis using Suc by simp
  qed
qed simp

end

lemma volume_after_Nil [simp]: "volume_after name [] d = d"
  by (simp add: volume_after_def)

interpretation volume_view: object_view "volume_after name" "VolumeT name" for name
proof (unfold_locales, goal_cases)
  case (3 c s)
  then show ?case by (cases c) (auto simp: volume_after_def split: sum.split)
qed (simp_all add: volume_after_def split: call.split sum.split)

section \<open>Properties\<close>

text \<open>
  Two runs of \<^verbatim>\<open>Provision\<close> for different requests, with any provisioners and worlds, whose claims
  are bound to different volumes: they change no object in common, and whatever the order in which
  their calls reach the API server, every volume ends in the state its own run alone would give it.
\<close>

theorem parallel_provisionings:
  assumes "wf_provisioner p" "backoff_contract (hp_client p)" "honest (provision_calls p opts w)"
    and "wf_provisioner p'" "backoff_contract (hp_client p')" "honest (provision_calls p' opts' w')"
    and "own_objects opts \<inter> own_objects opts' = {}"
    and "bound_volumes (provision_calls p opts w) \<inter> bound_volumes (provision_calls p' opts' w') = {}"
    and "tr \<in> shuffles (provision_calls p opts w) (provision_calls p' opts' w')"
  shows "writes (provision_calls p opts w) \<inter> writes (provision_calls p' opts' w') = {} \<and>
     (\<forall>name d. VolumeT name \<in> writes (provision_calls p opts w) \<longrightarrow>
        volume_after name tr d = volume_after name (provision_calls p opts w) d) \<and>
     (\<forall>name d. VolumeT name \<in> writes (provision_calls p' opts' w') \<longrightarrow>
        volume_after name tr d = volume_after name (provision_calls p' opts' w') d)"
proof -
  let ?A = "provision_calls p opts w" and ?B = "provision_calls p' opts' w'"
  have own: "VolumeT name \<notin> own_objects o'" for name o' by (simp add: own_objects_def)
  from Provision_writes [OF assms(1-3)] Provision_writes [OF assms(4-6)] assms(7,8) own
  have disjoint: "writes ?A \<inter> writes ?B = {}" by fast
  moreover have "volume_after name tr d = volume_after name ?A d" if "VolumeT name \<in> writes ?A" for name d
    using volume_view.after_shuffle [OF assms(9), of name d] that disjoint by blast
  moreover have "volume_after name tr d = volume_after name ?B d" if "VolumeT name \<in> writes ?B" for name d
    using volume_view.after_shuffle [of tr ?B ?A name d] assms(9) that disjoint by (auto simp: shuffles_commutes)
  ultimately show ?thesis by blast
qed

text \<open>A second request, for another claim, whose backing claim the API server refuses to create.\<close>

definition other_opts :: ProvisionOptions where
  "other_opts = sample_opts\<lparr>opt_PVName := ''pvc-2'', opt_PVC := user_claim\<lparr>pvc_Name := ''storage-test-1''\<rparr>\<rparr>"

definition full_client :: "'e client" where
  "full_client = calm_client\<lparr>cl_CreatePVC := (\<lambda>ns c e. (Inl (OtherApiError ''quota''), e))\<rparr>"

definition other_calls :: "call list" where
  "other_calls =
     [ListerGetPVC ''default'' ''pvc-2'' (Inl (NotFound ''not in cache'')),
      CreatePVC ''default'' (annotated_pvc other_opts proxmox_class sample_node) (Inl (OtherApiError ''quota''))]"

lemma other_chosen: "chosen_class (sample_provisioner c m) other_opts = Some proxmox_class"
proof -
  have "opt_SelectedNode other_opts = opt_SelectedNode sample_opts" "opt_StorageClass other_opts = opt_StorageClass sample_opts"
    by (simp_all add: other_opts_def)
  then have "chosen_class (sample_provisioner c m) other_opts = chosen_class (sample_provisioner c m) sample_opts"
    unfolding chosen_class_def requested_classes_def by (simp only:)
  then show ?thesis by (simp only: sample_chosen)
qed

lemma full_ok:
  "wf_provisioner (sample_provisioner full_client m)"
  "backoff_contract (hp_client (sample_provisioner full_client m))"
  by (simp_all add: wf_sample_provisioner retry_contract full_client_def calm_client_def)

lemma other_run:
  "run_state (Provision (sample_provisioner full_client ''auto'') other_opts) w =
     (Provisioned None ProvisioningFinished
        (Some (failed ''failed to create persistentvolumeclaim: %v'' (OtherApiError ''quota''))),
      w\<lparr>calls := calls w @ other_calls\<rparr>)"
proof -
  have kind: "creation_kind (sample_provisioner c ''auto'') = ByAnnotation" for c :: "'a client"
    by (simp add: creation_kind_def sample_provisioner_def NewProvisioner_def methodDefault_def methodPod_def)
  have sel: "opt_SelectedNode other_opts = Some sample_node"
    by (simp add: other_opts_def sample_opts_def)
  have req: "pvc_Name (annotated_pvc other_opts proxmox_class sample_node) = ''pvc-2''"
    "pvc_Namespace (annotated_pvc other_opts proxmox_class sample_node) = ''default''"
    by (simp_all add: annotated_pvc_def requested_pvc_def other_opts_def user_claim_def)
  show ?thesis
    unfolding Provision_chosen [OF full_ok(1) other_chosen] kind
      createPVbyAnnotation_def sel option.case Let_def ensure_pvc_def req call_defs
    by (simp add: full_client_def calm_client_def IsNotFound_def other_calls_def provision_result_of_def)
qed

lemma other_provision:
  "provision_calls (sample_provisioner full_client ''auto'') other_opts w = other_calls"
  "provision_returns (sample_provisioner full_client ''auto'') other_opts w = Provisioned None ProvisioningFinished
     (Some (failed ''failed to create persistentvolumeclaim: %v'' (OtherApiError ''quota'')))"
  by (simp_all add: provision_calls_def provision_returns_def other_run)

lemma other_objects: "own_objects sample_opts \<inter> own_objects other_opts = {}" "bound_volumes other_calls = {}" "honest other_calls"
  by (simp_all add: own_objects_def other_opts_def sample_opts_def user_claim_def bound_volumes_def other_calls_def)

text \<open>The second request's calls come after the first call of the first one.\<close>

definition mixed_calls :: "call list" where
  "mixed_calls = hd sample_calls # other_calls @ tl sample_calls"

lemma append_in_shuffles: "ys @ xs \<in> shuffles xs ys"
  by (induction ys) (auto intro: Cons_in_shuffles_rightI)

lemma mixed_shuffled: "mixed_calls \<in> shuffles sample_calls other_calls"
proof -
  have "sample_calls = hd sample_calls # tl sample_calls" by (simp add: sample_calls_def)
  then show ?thesis
    unfolding mixed_calls_def by (metis Cons_in_shuffles_leftI append_in_shuffles)
qed

theorem parallel_provisionings_witness:
  "volume_after ''pv-1'' mixed_calls (JObject []) = volume_after ''pv-1'' sample_calls (JObject [])"
proof -
  let ?p = "sample_provisioner sample_client ''auto''" and ?q = "sample_provisioner (full_client :: unit client) ''auto''"
  have honest: "honest (provision_calls ?p sample_opts sample_world)" "honest (provision_calls ?q other_opts sample_world)"
    unfolding sample_provision other_provision by (rule sample_honest other_objects)+
  have vols: "bound_volumes (provision_calls ?p sample_opts sample_world) \<inter>
      bound_volumes (provision_calls ?q other_opts sample_world) = {}"
    unfolding other_provision other_objects by simp
  have shuffled: "mixed_calls \<in> shuffles (provision_calls ?p sample_opts sample_world) (provision_calls ?q other_opts sample_world)"
    unfolding sample_provision other_provision by (rule mixed_shuffled)
  have "VolumeT ''pv-1'' \<in> writes sample_calls" by (simp add: sample_calls_def)
  with parallel_provisionings [OF sample_ok honest(1) full_ok honest(2) other_objects(1) vols shuffled]
  show ?thesis
    unfolding sample_provision by blast
qed

end
