(* ===== verification/Attempts.thy ===== *)
theory Attempts
  imports Interleaving
begin

text \<open>
  The life of a request: the controller calls \<^verbatim>\<open>Provision\<close> for a claim again while it ends in an error.
  Between two calls the informer caches may have changed, and with them the selected node, the backing
  class and the document of the claim; its namespace and name and the name of the volume to make
  are fixed. Invariants over any number of attempts, and why a second attempt on a claim that is
  bound already cannot succeed.
\<close>

section \<open>Repeated calls\<close>

text \<open>An attempt: what the caches hold then, and the options the controller builds from them.\<close>

record 'e attempt =
  at_provisioner :: "'e HybridProvisioner"
  at_options :: ProvisionOptions

text \<open>An error, final or asking for another node, is followed by another attempt in time.\<close>

definition retriable :: "provision_result \<Rightarrow> bool" where
  "retriable r =
     (case r of
        Provisioned None ProvisioningFinished (Some err) \<Rightarrow> True
      | Provisioned None ProvisioningReschedule (Some err) \<Rightarrow> True
      | _ \<Rightarrow> False)"

fun attempts :: "'e attempt list \<Rightarrow> ('e world, provision_result list) state" where
  "attempts [] = State_Monad.return []"
| "attempts (a # as) = do {
     r \<leftarrow> Provision (at_provisioner a) (at_options a);
     if retriable r then do {
       rs \<leftarrow> attempts as;
       State_Monad.return (r # rs)
     }
     else State_Monad.return [r]
   }"

definition attempt_results :: "'e attempt list \<Rightarrow> 'e world \<Rightarrow> provision_result list" where
  "attempt_results as w = fst (run_state (attempts as) w)"

definition attempt_calls :: "'e attempt list \<Rightarrow> 'e world \<Rightarrow> call list" where
  "attempt_calls as w = drop (length (calls w)) (calls (snd (run_state (attempts as) w)))"

text \<open>The world after the attempts.\<close>

definition attempt_world :: "'e attempt list \<Rightarrow> 'e world \<Rightarrow> 'e world" where
  "attempt_world as w = snd (run_state (attempts as) w)"

text \<open>One of them.\<close>

abbreviation returned :: "'e attempt \<Rightarrow> 'e world \<Rightarrow> provision_result" where
  "returned a w \<equiv> provision_returns (at_provisioner a) (at_options a) w"

abbreviation made_calls :: "'e attempt \<Rightarrow> 'e world \<Rightarrow> call list" where
  "made_calls a w \<equiv> provision_calls (at_provisioner a) (at_options a) w"

abbreviation class_of :: "'e attempt \<Rightarrow> storage_class option" where
  "class_of a \<equiv> chosen_class (at_provisioner a) (at_options a)"

definition next_world :: "'e attempt \<Rightarrow> 'e world \<Rightarrow> 'e world" where
  "next_world a w = snd (run_state (Provision (at_provisioner a) (at_options a)) w)"

lemma attempt_results_simps [simp]:
  "attempt_results [] w = []"
  "attempt_results (a # as) w =
     returned a w # (if retriable (returned a w) then attempt_results as (next_world a w) else [])"
  by (simp_all add: attempt_results_def provision_returns_def next_world_def split: prod.split)

lemma attempt_results_Nil [simp]: "attempt_results as w = [] \<longleftrightarrow> as = []"
  by (cases as) simp_all

lemma attempt_world_simps [simp]:
  "attempt_world [] w = w"
  "attempt_world (a # as) w =
     (if retriable (returned a w) then attempt_world as (next_world a w) else next_world a w)"
  by (simp_all add: attempt_world_def provision_returns_def next_world_def split: prod.split)

text \<open>The attempt that ended the request, so far.\<close>

fun last_attempt :: "'e attempt list \<Rightarrow> 'e world \<Rightarrow> 'e attempt" where
  "last_attempt [] w = undefined"
| "last_attempt (a # as) w =
     (if retriable (returned a w) \<and> as \<noteq> [] then last_attempt as (next_world a w) else a)"

lemma last_attempt_in: "as \<noteq> [] \<Longrightarrow> last_attempt as w \<in> set as"
proof (induction as arbitrary: w)
  case (Cons a as)
  then show ?case by (cases "as = []") auto
qed simp

section \<open>The attempts at one request\<close>

definition same_request :: "ProvisionOptions \<Rightarrow> ProvisionOptions \<Rightarrow> bool" where
  "same_request opts opts' \<longleftrightarrow>
     pvc_Namespace (opt_PVC opts') = pvc_Namespace (opt_PVC opts) \<and>
     pvc_Name (opt_PVC opts') = pvc_Name (opt_PVC opts) \<and> opt_PVName opts' = opt_PVName opts"

text \<open>Made by one provisioner: its method and client stay, the caches it reads may change.\<close>

definition at_request :: "'e client \<Rightarrow> ProvisionOptions \<Rightarrow> 'e attempt list \<Rightarrow> bool" where
  "at_request c opts as \<longleftrightarrow> backoff_contract c \<and>
     (\<forall>a\<in>set as. wf_provisioner (at_provisioner a) \<and> hp_client (at_provisioner a) = c \<and> same_request opts (at_options a))"

lemma at_request_simps [simp]:
  "at_request c opts [] \<longleftrightarrow> backoff_contract c"
  "at_request c opts (a # as) \<longleftrightarrow> wf_provisioner (at_provisioner a) \<and> hp_client (at_provisioner a) = c \<and>
     same_request opts (at_options a) \<and> at_request c opts as"
  by (auto simp: at_request_def)

lemma at_requestD:
  "at_request c opts as \<Longrightarrow> backoff_contract c"
  "at_request c opts as \<Longrightarrow> a \<in> set as \<Longrightarrow> wf_provisioner (at_provisioner a)"
  "at_request c opts as \<Longrightarrow> a \<in> set as \<Longrightarrow> hp_client (at_provisioner a) = c"
  "at_request c opts as \<Longrightarrow> a \<in> set as \<Longrightarrow> same_request opts (at_options a)"
  by (auto simp: at_request_def)

text \<open>The same attempt again and again.\<close>

abbreviation again :: "nat \<Rightarrow> 'e HybridProvisioner \<Rightarrow> ProvisionOptions \<Rightarrow> 'e attempt list" where
  "again k p opts \<equiv> replicate k \<lparr>at_provisioner = p, at_options = opts\<rparr>"

lemma again_at_request:
  "wf_provisioner p \<Longrightarrow> backoff_contract (hp_client p) \<Longrightarrow> at_request (hp_client p) opts (again k p opts)"
  by (auto simp: at_request_def same_request_def)

lemma Provision_appends:
  assumes "wf_provisioner (at_provisioner a)" and "backoff_contract (hp_client (at_provisioner a))"
  shows "calls (next_world a w) = calls w @ made_calls a w"
proof (cases "class_of a")
  case None
  from Provision_not_chosen [OF this, of w] show ?thesis by (auto simp: provision_calls_def next_world_def)
next
  case (Some sc)
  then obtain n where "opt_SelectedNode (at_options a) = Some n" using chosen_class_node by blast
  moreover obtain res w' where run: "run_state (Provision (at_provisioner a) (at_options a)) w = (res, w')" by (metis prod.exhaust)
  ultimately show ?thesis
    using Provision_run [OF assms Some] by (fastforce simp: provision_calls_def next_world_def)
qed

lemma attempts_append: "at_request c opts as \<Longrightarrow> \<exists>tr. calls (attempt_world as w) = calls w @ tr"
proof (induction as arbitrary: w)
  case (Cons a as)
  then have "calls (next_world a w) = calls w @ made_calls a w"
    by (intro Provision_appends) (auto simp: at_request_def)
  with Cons.IH [of "next_world a w"] Cons.prems show ?case by auto
qed simp

lemma attempt_calls_Nil [simp]: "attempt_calls [] w = []"
  by (simp add: attempt_calls_def)

lemma attempt_calls_Cons:
  assumes "at_request c opts (a # as)"
  shows "attempt_calls (a # as) w = made_calls a w @
     (if retriable (returned a w) then attempt_calls as (next_world a w) else [])"
proof -
  from assms have "at_request c opts as" by simp
  then obtain tr where "calls (attempt_world as (next_world a w)) = calls (next_world a w) @ tr"
    using attempts_append by blast
  moreover have "calls (next_world a w) = calls w @ made_calls a w"
    using assms by (intro Provision_appends) (auto simp: at_request_def)
  ultimately show ?thesis
    unfolding attempt_calls_def attempt_world_def [symmetric] by simp
qed

text \<open>All attempts but the last ended in an error.\<close>

lemma attempts_retriable: "r \<in> set (butlast (attempt_results as w)) \<Longrightarrow> retriable r"
  by (induction as arbitrary: w) (auto split: if_splits)

lemma retriable_fails: "retriable r \<Longrightarrow> r \<noteq> Provisioned (Some v) st err"
  by (auto simp: retriable_def)

lemma unharmed_handed_over: "unharmed d e \<Longrightarrow> handed_over c e f \<Longrightarrow> handed_over c d f"
  by (auto simp: unharmed_def retained_def freed_def handed_over_def intro: same_but_trans)

lemma freed_unharmed: "freed d e \<Longrightarrow> unharmed d e"
  by (simp add: unharmed_def)

section \<open>The patches that hand a volume over\<close>

definition hand_overs :: "call list \<Rightarrow> (string \<times> patch_body) list" where
  "hand_overs tr = filter (\<lambda>x. \<exists>claim. snd x = claim_ref_patch claim) (applied tr)"

lemma hand_overs_append [simp]: "hand_overs (tr @ tr') = hand_overs tr @ hand_overs tr'"
  by (simp add: hand_overs_def)

lemma hand_overs_run:
  assumes "wf_provisioner p" and "backoff_contract (hp_client p)"
  shows "length (hand_overs (provision_calls p opts w)) \<le>
     (if \<exists>v st err. provision_returns p opts w = Provisioned (Some v) st err then 1 else 0)"
  using assms
proof (cases rule: Provision_ends [of p opts w])
  case idle
  then show ?thesis by (simp add: hand_overs_def)
next
  case (success sc n claim v)
  then show ?thesis
    unfolding hand_overs_def applied_reach [OF success(3)] by (auto simp: patches_distinct)
next
  case (failure sc n ph err)
  from given_up_applied [OF failure(3,4)] show ?thesis
    unfolding hand_overs_def by (auto simp: patches_distinct)
qed

section \<open>Attempts without a modification event\<close>

definition no_modification :: "call list \<Rightarrow> bool" where
  "no_modification tr \<longleftrightarrow>
     (\<forall>c\<in>set tr. case c of
        WatchPVC ns sel (Inr events) \<Rightarrow> \<forall>e\<in>set (received events). ev_Type e \<noteq> Modified
      | _ \<Rightarrow> True)"

lemma no_modification_append [simp]:
  "no_modification (tr @ tr') \<longleftrightarrow> no_modification tr \<and> no_modification tr'"
  by (auto simp: no_modification_def)

text \<open>Calls that change neither a volume nor an existing claim or pod.\<close>

fun harmless :: "call \<Rightarrow> bool" where
  "harmless (PatchPV name b r) = False"
| "harmless (PatchPVC ns name b r) = False"
| "harmless (DeletePVC ns name pol r) = False"
| "harmless (DeletePod ns name r) = False"
| "harmless _ = True"

lemma harmless_until_claim:
  "proto_reach x tr ph \<Longrightarrow> phase_claim ph = None \<Longrightarrow> \<forall>c\<in>set tr. harmless c"
proof (induction rule: proto_reach.induct)
  case reach_start
  then show ?case by simp
next
  case (reach_step tr ph c ph')
  from reach_step.hyps(2) reach_step.prems reach_step.IH show ?case
    by (cases rule: proto_step.cases) auto
qed

lemma no_claim_without_modification:
  assumes "proto_reach x tr ph"
    and "\<forall>ns sel events e. WatchPVC ns sel (Inr events) \<in> set tr \<longrightarrow> e \<in> set (received events) \<longrightarrow> ev_Type e \<noteq> Modified"
  shows "phase_claim ph = None"
proof (rule ccontr)
  assume "phase_claim ph \<noteq> None"
  then obtain claim where "phase_claim ph = Some claim" by blast
  with log_inv_reach [OF assms(1)] obtain events where
    "WatchPVC (wanted_ns x) (name_selector (wanted_name x)) (Inr events) \<in> set tr"
    "waitBind_loop (wanted_name x) events = Inr claim" by (auto simp: log_inv_def)
  with assms(2) show False by (auto simp: bind_accept_Some dest!: binding.loop_accepted)
qed


lemma stuck_run:
  assumes "wf_provisioner p" and "backoff_contract (hp_client p)" and "no_modification (provision_calls p opts w)"
  shows "(\<forall>v st err. provision_returns p opts w \<noteq> Provisioned (Some v) st err) \<and>
     (\<forall>c\<in>set (provision_calls p opts w). harmless c)"
  using assms(1,2)
proof (cases rule: Provision_cases [of p opts w])
  case idle
  then show ?thesis by simp
next
  case (ran sc n ph r)
  have "phase_claim ph = None"
    using no_claim_without_modification [OF ran(3)] assms(3) by (fastforce simp: no_modification_def)
  moreover from this have "r \<noteq> Done (Inr v)" for v
    using ran(4) by (auto simp: run_outcome_def outcome_def finished_def split: if_splits)
  ultimately show ?thesis
    using harmless_until_claim [OF ran(3)] unfolding ran(5)
    by (auto simp: provision_result_of_def split: run.split sum.split)
qed

section \<open>The volumes after the attempts\<close>

text \<open>A volume that the last attempt returned, for a class that reclaims by Delete.\<close>

definition won :: "'e attempt list \<Rightarrow> 'e world \<Rightarrow> string \<Rightarrow> bool" where
  "won as w name \<longleftrightarrow> as \<noteq> [] \<and>
     (\<exists>v st err sc. last (attempt_results as w) = Provisioned (Some v) st err \<and> name = pv_Name v \<and>
        class_of (last_attempt as w) = Some sc \<and> sc_ReclaimPolicy sc = Some ''Delete'')"

lemma won_some: "won as w name \<Longrightarrow> as \<noteq> []"
  by (simp add: won_def)

lemma won_Cons:
  "won (a # as) w name \<longleftrightarrow>
     (if retriable (returned a w) then won as (next_world a w) name
      else \<exists>v st err sc. returned a w = Provisioned (Some v) st err \<and> name = pv_Name v \<and>
        class_of a = Some sc \<and> sc_ReclaimPolicy sc = Some ''Delete'')"
  by (auto simp: won_def dest: retriable_fails)

lemma attempts_volumes:
  assumes "at_request c opts as" and "\<forall>a\<in>set as. plain_claim (opt_PVC (at_options a))"
    and "\<forall>n b x. PatchPV n b (Inr x) \<in> set (attempt_calls as w) \<longrightarrow> pv_Name x = n"
  shows "if won as w name
     then handed_over (opt_PVC (at_options (last_attempt as w))) d (volume_after name (attempt_calls as w) d)
     else unharmed d (volume_after name (attempt_calls as w) d)"
  using assms
proof (induction as arbitrary: w d)
  case Nil
  then show ?case by (simp add: won_def)
next
  case (Cons a as)
  let ?tr = "made_calls a w"
  note log = attempt_calls_Cons [OF Cons.prems(1)]
  have names: "\<forall>n b x. PatchPV n b (Inr x) \<in> set ?tr \<longrightarrow> pv_Name x = n" using Cons.prems(3) unfolding log by auto
  from Cons.prems have a: "wf_provisioner (at_provisioner a)" "backoff_contract (hp_client (at_provisioner a))"
    "plain_claim (opt_PVC (at_options a))" by (auto simp: at_request_def)
  note state = run_volume_state [OF a names, where name = name and d = d]
  show ?case
  proof (cases "retriable (returned a w)")
    case True
    with state have first: "unharmed d (volume_after name ?tr d)"
      by (auto simp: retriable_def split: provision_result.splits option.splits provisioning_state.splits)
    have "\<forall>n b x. PatchPV n b (Inr x) \<in> set (attempt_calls as (next_world a w)) \<longrightarrow> pv_Name x = n"
      using Cons.prems(3) True unfolding log by auto
    with Cons have "if won as (next_world a w) name
        then handed_over (opt_PVC (at_options (last_attempt as (next_world a w)))) (volume_after name ?tr d)
          (volume_after name (attempt_calls as (next_world a w)) (volume_after name ?tr d))
        else unharmed (volume_after name ?tr d) (volume_after name (attempt_calls as (next_world a w)) (volume_after name ?tr d))"
      by simp
    with first True show ?thesis
      unfolding log won_Cons
      by (auto simp: volume_view.after_append dest: won_some intro: unharmed_trans unharmed_handed_over split: if_splits)
  next
    case False
    with state show ?thesis
      unfolding log won_Cons
      by (auto simp: Let_def freed_unharmed split: provision_result.splits option.splits if_splits)
  qed
qed

section \<open>Properties\<close>

text \<open>
  C6: the state of the volumes over any number of attempts. At every moment between attempts, whatever
  the caches, the selected node and the chosen class were in each, the volume the last attempt has
  returned, for a class that reclaims by Delete, is handed over to exactly the requesting claim, and every
  other volume of the cluster is unharmed: as it was, retained, or retained and free. Nothing else of its document has changed since before the first.
\<close>

theorem attempts_volume_state:
  assumes "at_request c opts as" and "\<forall>a\<in>set as. plain_claim (opt_PVC (at_options a))"
    and "\<forall>n b x. PatchPV n b (Inr x) \<in> set (attempt_calls as w) \<longrightarrow> pv_Name x = n"
  shows "if won as w name
     then handed_over (opt_PVC (at_options (last_attempt as w))) d (volume_after name (attempt_calls as w) d)
     else unharmed d (volume_after name (attempt_calls as w) d)"
  using assms by (rule attempts_volumes)

text \<open>
  Over any number of attempts a volume is handed to a claim at most once, and only by
  the last attempt, which then succeeds.
\<close>

theorem attempts_hand_over_once:
  assumes "at_request c opts as"
  shows "length (hand_overs (attempt_calls as w)) \<le> 1 \<and>
     (hand_overs (attempt_calls as w) = [] \<or>
      (\<exists>v st err. last (attempt_results as w) = Provisioned (Some v) st err))"
  using assms
proof (induction as arbitrary: w)
  case Nil
  then show ?case by (simp add: hand_overs_def)
next
  case (Cons a as)
  from Cons.prems have "wf_provisioner (at_provisioner a)" "backoff_contract (hp_client (at_provisioner a))"
    by (auto simp: at_request_def)
  note run = hand_overs_run [OF this, of "at_options a" w] and log = attempt_calls_Cons [OF Cons.prems]
  show ?case
  proof (cases "retriable (returned a w)")
    case True
    with run have none: "hand_overs (made_calls a w) = []" by (auto dest: retriable_fails split: if_splits)
    with Cons.IH [of "next_world a w"] Cons.prems True show ?thesis
      unfolding log by (cases "as = []") (auto simp: hand_overs_def)
  next
    case False
    with run show ?thesis unfolding log by (auto split: if_splits)
  qed
qed

text \<open>
  C22: a claim bound in an earlier attempt is no use: as long as the watches of the attempts report no
  modification (a claim bound already is reported as added), every attempt fails, and none of them
  patches a volume, deletes the claim or tells the user's claim of a volume.
\<close>

theorem attempts_stuck:
  assumes "at_request c opts as" and "no_modification (attempt_calls as w)"
  shows "(\<forall>r\<in>set (attempt_results as w). \<forall>v st err. r \<noteq> Provisioned (Some v) st err) \<and>
     (\<forall>c\<in>set (attempt_calls as w). harmless c)"
  using assms
proof (induction as arbitrary: w)
  case Nil
  then show ?case by simp
next
  case (Cons a as)
  from Cons.prems(1) have a: "wf_provisioner (at_provisioner a)" "backoff_contract (hp_client (at_provisioner a))"
    by (auto simp: at_request_def)
  note log = attempt_calls_Cons [OF Cons.prems(1)]
  from Cons.prems(2) have "no_modification (made_calls a w)" unfolding log by simp
  note run = stuck_run [OF a this]
  show ?case
  proof (cases "retriable (returned a w)")
    case True
    with Cons.prems have "no_modification (attempt_calls as (next_world a w))" unfolding log by simp
    with Cons run True show ?thesis unfolding log by auto
  next
    case False
    with run show ?thesis unfolding log by auto
  qed
qed

section \<open>Sample attempts\<close>

text \<open>A watch that reports the bound claim as added, and the three calls of each attempt then.\<close>

definition stale_events :: "pvc watch_event select_run" where
  "stale_events = Recv \<lparr>ev_Type = Added, ev_Object = Some sample_claim\<rparr> TimerFired"

definition stale_client :: "unit client" where
  "stale_client = sample_client\<lparr>cl_WatchPVC := (\<lambda>ns sel e. (Inr stale_events, e)),
     cl_ListerGetPVC := (\<lambda>ns name e. (Inr sample_claim, e))\<rparr>"

definition stale_calls :: "call list" where
  "stale_calls =
     [ListerGetPVC ''default'' ''pvc-1'' (Inr sample_claim),
      WatchPVC ''default'' (name_selector ''pvc-1'') (Inr stale_events)]"

abbreviation stale_provisioner :: "unit HybridProvisioner" where
  "stale_provisioner \<equiv> sample_provisioner stale_client ''auto''"

lemma stale_ok: "wf_provisioner stale_provisioner" "backoff_contract (hp_client stale_provisioner)"
  by (simp_all add: wf_sample_provisioner retry_contract stale_client_def sample_client_def)

lemma stale_run:
  "run_state (Provision stale_provisioner sample_opts) \<lparr>env = (), calls = cs\<rparr> =
     (Provisioned None ProvisioningFinished (Some (bind_timeout ''pvc-1'')), \<lparr>env = (), calls = cs @ stale_calls\<rparr>)"
  unfolding sample_unfolds
  by (simp add: sample_client_def stale_client_def stale_events_def stale_calls_def provision_result_of_def)

lemma stale_attempts:
  "run_state (attempts (again 3 stale_provisioner sample_opts)) sample_world =
     (replicate 3 (Provisioned None ProvisioningFinished (Some (bind_timeout ''pvc-1''))),
      \<lparr>env = (), calls = stale_calls @ stale_calls @ stale_calls\<rparr>)"
  by (simp add: eval_nat_numeral sample_world_def stale_run retriable_def)

lemma stale_attempt_calls:
  "attempt_calls (again 3 stale_provisioner sample_opts) sample_world = stale_calls @ stale_calls @ stale_calls"
  "attempt_results (again 3 stale_provisioner sample_opts) sample_world =
     replicate 3 (Provisioned None ProvisioningFinished (Some (bind_timeout ''pvc-1'')))"
  unfolding attempt_calls_def attempt_results_def stale_attempts by (simp_all add: sample_world_def)

theorem attempts_stuck_witness:
  "list_all harmless (stale_calls @ stale_calls @ stale_calls) \<and>
   attempt_calls (again 3 stale_provisioner sample_opts) sample_world = stale_calls @ stale_calls @ stale_calls"
proof -
  have "no_modification (attempt_calls (again 3 stale_provisioner sample_opts) sample_world)"
    unfolding stale_attempt_calls by (simp add: no_modification_def stale_calls_def stale_events_def)
  from attempts_stuck [OF again_at_request [OF stale_ok] this] show ?thesis unfolding stale_attempt_calls list_all_iff by blast
qed

theorem attempts_hand_over_once_witness:
  "length (hand_overs (attempt_calls (again 3 stale_provisioner sample_opts) sample_world)) \<le> 1"
  using attempts_hand_over_once [OF again_at_request [OF stale_ok]] by blast

text \<open>One attempt against the sample client, which succeeds.\<close>

abbreviation sample_attempts :: "unit attempt list" where
  "sample_attempts \<equiv> again 2 (sample_provisioner sample_client ''auto'') sample_opts"

lemma sample_attempt: "attempt_calls sample_attempts sample_world = sample_calls"
  using sample_provision attempt_calls_Cons [of sample_client sample_opts "hd sample_attempts" "tl sample_attempts" sample_world]
    again_at_request [OF sample_ok, of "''auto''" sample_opts 2]
  by (simp add: eval_nat_numeral retriable_def)

theorem attempts_volume_state_witness:
  "unharmed (JObject []) (volume_after ''pv-2'' sample_calls (JObject [])) \<and>
   handed_over user_claim (JObject []) (volume_after ''pv-1'' sample_calls (JObject []))"
proof -
  have plain: "\<forall>a\<in>set sample_attempts. plain_claim (opt_PVC (at_options a))"
    unfolding sample_opts_def by simp code_simp
  have names: "\<forall>n b x. PatchPV n b (Inr x) \<in> set (attempt_calls sample_attempts sample_world) \<longrightarrow> pv_Name x = n"
    unfolding sample_attempt sample_calls_def by (auto simp: sample_pv_def)
  have won: "\<not> won sample_attempts sample_world ''pv-2''" "won sample_attempts sample_world ''pv-1''"
    by (simp_all add: won_def eval_nat_numeral sample_provision retriable_def released_pv_def sample_pv_def
        sample_chosen proxmox_class_def PersistentVolumeReclaimDelete_def)
  have last: "opt_PVC (at_options (last_attempt sample_attempts sample_world)) = user_claim"
    by (simp add: eval_nat_numeral sample_provision retriable_def sample_opts_sel)
  note state = attempts_volume_state [OF again_at_request [OF sample_ok] plain names, where d = "JObject []"]
  from state [of "''pv-2''"] state [of "''pv-1''"] won last show ?thesis unfolding sample_attempt by simp
qed

text \<open>Attempts whose first hand-over is refused: the environment says whether this has happened already.\<close>

definition conflict :: api_error where
  "conflict = OtherApiError ''conflict''"

definition flaky_client :: "bool client" where
  "flaky_client = calm_client\<lparr>cl_PatchPV := (\<lambda>name b refused.
     if b = claim_ref_patch user_claim \<and> \<not> refused then (Inl conflict, True) else (Inr sample_pv, refused))\<rparr>"

abbreviation flaky_provisioner :: "bool HybridProvisioner" where
  "flaky_provisioner \<equiv> sample_provisioner flaky_client ''auto''"

definition refused_calls :: "call list" where
  "refused_calls = butlast sample_calls @ [PatchPV ''pv-1'' (claim_ref_patch user_claim) (Inl conflict)]"

lemma flaky_ok: "wf_provisioner flaky_provisioner" "backoff_contract (hp_client flaky_provisioner)"
  by (simp_all add: wf_sample_provisioner retry_contract flaky_client_def calm_client_def)

lemma flaky_client_backoff: "cl_ExponentialBackoff flaky_client = (\<lambda>b cond. retry (nat (bo_Steps b)) cond)"
  by (simp add: flaky_client_def calm_client_def)

lemma flaky_run:
  "run_state (Provision flaky_provisioner sample_opts) \<lparr>env = refused, calls = cs\<rparr> =
     (if refused then (Provisioned (Some released_pv) ProvisioningFinished None, \<lparr>env = True, calls = cs @ sample_calls\<rparr>)
      else (Provisioned None ProvisioningFinished (Some (failed ''failed to patch PersistentVolume: %v'' conflict)),
        \<lparr>env = True, calls = cs @ refused_calls\<rparr>))"
  unfolding sample_unfolds
  by (simp add: sample_retry [OF flaky_client_backoff])
    (simp add: flaky_client_def calm_client_def sample_values patches_distinct refused_calls_def)

definition flaky_world :: "bool world" where
  "flaky_world = \<lparr>env = False, calls = []\<rparr>"

abbreviation flaky_requests :: "bool attempt list" where
  "flaky_requests \<equiv> again 2 flaky_provisioner sample_opts"

lemma flaky_attempts:
  "attempt_calls flaky_requests flaky_world = refused_calls @ sample_calls"
  "last (attempt_results flaky_requests flaky_world) = Provisioned (Some released_pv) ProvisioningFinished None"
  by (simp_all add: eval_nat_numeral attempt_calls_def attempt_results_def flaky_world_def flaky_run retriable_def)

lemma flaky_last: "last_attempt flaky_requests flaky_world = \<lparr>at_provisioner = flaky_provisioner, at_options = sample_opts\<rparr>"
  using last_attempt_in [of flaky_requests flaky_world] by simp

end
