(* ===== verification/JsonWrite.thy ===== *)
theory JsonWrite
  imports Json
begin

text \<open>
  Writing JSON, and the round trip with the reader of \<open>Json\<close>: what is written for a value whose
  texts are plain is read back as that value. It serves as the concrete \<^verbatim>\<open>json.Marshal\<close> of the witnesses.
\<close>

section \<open>Writing\<close>

fun comma_separated :: "token list list \<Rightarrow> token list" where
  "comma_separated [] = []"
| "comma_separated [x] = x"
| "comma_separated (x # y # ys) = x @ Comma # comma_separated (y # ys)"

fun json_tokens :: "json \<Rightarrow> token list" where
  "json_tokens JNull = [Word ''null'']"
| "json_tokens (JBool b) = [Word (if b then ''true'' else ''false'')]"
| "json_tokens (JNumber s) = [Word s]"
| "json_tokens (JString s) = [TString s]"
| "json_tokens (JArray vs) = LBracket # comma_separated (map json_tokens vs) @ [RBracket]"
| "json_tokens (JObject ms) =
     LBrace # comma_separated (map (\<lambda>(k, v). TString k # Colon # json_tokens v) ms) @ [RBrace]"

fun token_text :: "token \<Rightarrow> string" where
  "token_text LBrace = ''{''"
| "token_text RBrace = ''}''"
| "token_text LBracket = ''[''"
| "token_text RBracket = '']''"
| "token_text Comma = '',''"
| "token_text Colon = '':''"
| "token_text (TString s) = CHR 0x22 # s @ [CHR 0x22]"
| "token_text (Word s) = s"
| "token_text Bad = []"

definition write_json :: "json \<Rightarrow> string" where
  "write_json v = concat (map token_text (json_tokens v))"

text \<open>Values the writer renders faithfully: plain texts, and numbers that are numbers.\<close>

fun plain_json :: "json \<Rightarrow> bool" where
  "plain_json (JNumber s) = is_number s"
| "plain_json (JString s) = plain_text s"
| "plain_json (JArray vs) = (\<forall>v\<in>set vs. plain_json v)"
| "plain_json (JObject ms) = (\<forall>(k, v)\<in>set ms. plain_text k \<and> plain_json v)"
| "plain_json v = True"

section \<open>Tokens\<close>

definition plain_word :: "string \<Rightarrow> bool" where
  "plain_word s \<longleftrightarrow> s \<noteq> [] \<and>
     list_all (\<lambda>c. \<not> is_space c \<and> c \<noteq> CHR 0x22 \<and> punctuation c = None) s"

text \<open>Token lists in which a word stands only before a bracket, a comma or the end.\<close>

fun plain_tokens :: "token list \<Rightarrow> bool" where
  "plain_tokens [] = True"
| "plain_tokens (Word s # ts) =
     (plain_word s \<and> plain_tokens ts \<and> (case ts of [] \<Rightarrow> True | t # _ \<Rightarrow> t \<in> {RBrace, RBracket, Comma}))"
| "plain_tokens (TString s # ts) = (plain_text s \<and> plain_tokens ts)"
| "plain_tokens (Bad # ts) = False"
| "plain_tokens (t # ts) = plain_tokens ts"

lemma tokens_word:
  "list_all (\<lambda>c. \<not> is_space c \<and> c \<noteq> CHR 0x22 \<and> punctuation c = None) s \<Longrightarrow>
   tokens (InWord acc) (s @ rest) = tokens (InWord (rev s @ acc)) rest"
  by (induction s arbitrary: acc) auto

lemma tokens_words:
  assumes "plain_word s"
  shows "tokens Between (s @ rest) = tokens (InWord (rev s)) rest"
proof -
  from assms obtain c cs where "s = c # cs" and "\<not> is_space c" "c \<noteq> CHR 0x22" "punctuation c = None"
    and "list_all (\<lambda>c. \<not> is_space c \<and> c \<noteq> CHR 0x22 \<and> punctuation c = None) cs"
    by (cases s) (auto simp: plain_word_def)
  then show ?thesis using tokens_word [of cs "[c]" rest] by simp
qed

lemma tokens_text: "plain_tokens ts \<Longrightarrow> tokens Between (concat (map token_text ts)) = ts"
proof (induction ts rule: plain_tokens.induct)
  case (2 s ts)
  then have w: "tokens Between (s @ concat (map token_text ts)) = tokens (InWord (rev s)) (concat (map token_text ts))"
    by (simp add: tokens_words)
  show ?case
  proof (cases ts)
    case Nil
    with w show ?thesis by simp
  next
    case (Cons t ts')
    with 2 have "t \<in> {RBrace, RBracket, Comma}" by simp
    with 2 Cons w show ?thesis by (auto simp: is_space_def punctuation_def)
  qed
next
  case (3 s ts)
  then show ?case by (simp add: tokens_plain_text is_space_def punctuation_def)
qed (auto simp: is_space_def punctuation_def)

section \<open>Parsing what was written\<close>

text \<open>A value that is parsed from its tokens, whatever follows, with fuel for each token.\<close>

definition parses :: "json \<Rightarrow> bool" where
  "parses v \<longleftrightarrow> (\<forall>n ts. length (json_tokens v) \<le> n \<longrightarrow> parse_value n (json_tokens v @ ts) = Some (v, ts))"

lemma parsesD: "parses v \<Longrightarrow> length (json_tokens v) \<le> n \<Longrightarrow> parse_value n (json_tokens v @ ts) = Some (v, ts)"
  by (simp add: parses_def)

lemma first_token: "\<exists>t ts. json_tokens v = t # ts \<and> t \<noteq> RBracket \<and> t \<noteq> RBrace"
  by (cases v) auto

lemma parse_elements_tokens:
  "vs \<noteq> [] \<Longrightarrow> \<forall>v\<in>set vs. parses v \<Longrightarrow> length (comma_separated (map json_tokens vs)) < n \<Longrightarrow>
   parse_elements n acc (comma_separated (map json_tokens vs) @ RBracket # ts) = Some (JArray (acc @ vs), ts)"
proof (induction vs arbitrary: acc n)
  case Nil
  then show ?case by simp
next
  case (Cons v vs)
  then obtain m where n: "n = Suc m" by (cases n) auto
  show ?case
  proof (cases vs)
    case Nil
    with Cons n show ?thesis by (simp add: parsesD)
  next
    case (Cons w ws)
    with Cons.prems n have "length (json_tokens v) \<le> m" "length (comma_separated (map json_tokens vs)) < m" by auto
    with Cons.IH [of m "acc @ [v]"] Cons.prems n Cons show ?thesis by (simp add: parsesD)
  qed
qed

abbreviation member_tokens :: "string \<times> json \<Rightarrow> token list" where
  "member_tokens \<equiv> \<lambda>(k, v). TString k # Colon # json_tokens v"

lemma parse_members_tokens:
  "ms \<noteq> [] \<Longrightarrow> \<forall>(k, v)\<in>set ms. parses v \<Longrightarrow> length (comma_separated (map member_tokens ms)) < n \<Longrightarrow>
   parse_members n acc (comma_separated (map member_tokens ms) @ RBrace # ts) = Some (JObject (acc @ ms), ts)"
proof (induction ms arbitrary: acc n)
  case Nil
  then show ?case by simp
next
  case (Cons x ms)
  obtain k v where x: "x = (k, v)" by (cases x)
  from Cons obtain m where n: "n = Suc m" by (cases n) auto
  show ?case
  proof (cases ms)
    case Nil
    with Cons n x show ?thesis by (simp add: parsesD)
  next
    case (Cons y ys)
    with Cons.prems n x have "length (json_tokens v) \<le> m" "length (comma_separated (map member_tokens ms)) < m" by auto
    with Cons.IH [of m "acc @ [(k, v)]"] Cons.prems n Cons x show ?thesis by (simp add: parsesD)
  qed
qed

lemma parse_array:
  assumes "\<forall>v\<in>set vs. parses v"
  shows "parses (JArray vs)"
  unfolding parses_def
proof (intro allI impI)
  fix n ts
  assume len: "length (json_tokens (JArray vs)) \<le> n"
  then obtain m where n: "n = Suc m" by (cases n) auto
  show "parse_value n (json_tokens (JArray vs) @ ts) = Some (JArray vs, ts)"
  proof (cases vs)
    case Nil
    with n show ?thesis by simp
  next
    case (Cons w ws)
    obtain t us where first: "comma_separated (map json_tokens vs) = t # us" "t \<noteq> RBracket"
      using first_token [of w] Cons by (cases ws) auto
    have "vs \<noteq> []" "length (comma_separated (map json_tokens vs)) < m" using Cons len n by auto
    from parse_elements_tokens [OF this(1) assms this(2), of "[]" ts]
    have "parse_elements m [] (t # us @ RBracket # ts) = Some (JArray vs, ts)" unfolding first by simp
    with n first show ?thesis by (cases t) (auto simp del: parse_elements.simps)
  qed
qed

lemma parse_object:
  assumes "\<forall>(k, v)\<in>set ms. parses v"
  shows "parses (JObject ms)"
  unfolding parses_def
proof (intro allI impI)
  fix n ts
  assume len: "length (json_tokens (JObject ms)) \<le> n"
  then obtain m where n: "n = Suc m" by (cases n) auto
  show "parse_value n (json_tokens (JObject ms) @ ts) = Some (JObject ms, ts)"
  proof (cases ms)
    case Nil
    with n show ?thesis by simp
  next
    case (Cons w ws)
    obtain k us where first: "comma_separated (map member_tokens ms) = TString k # us"
      using Cons by (cases w; cases ws) auto
    have "ms \<noteq> []" "length (comma_separated (map member_tokens ms)) < m" using Cons len n by auto
    from parse_members_tokens [OF this(1) assms this(2), of "[]" ts]
    have "parse_members m [] (TString k # us @ RBrace # ts) = Some (JObject ms, ts)" unfolding first by simp
    with n first show ?thesis by (simp del: parse_members.simps)
  qed
qed

lemma word_null: "parses JNull"
  unfolding parses_def by (auto simp: read_word_def Suc_le_eq gr0_conv_Suc)

lemma word_bool: "parses (JBool b)"
  unfolding parses_def by (auto simp: read_word_def Suc_le_eq gr0_conv_Suc)

lemma word_number: "is_number s \<Longrightarrow> parses (JNumber s)"
  unfolding parses_def by (auto simp: read_word_def is_number_def Suc_le_eq gr0_conv_Suc)

lemma parses_plain: "plain_json v \<Longrightarrow> parses v"
proof (induction v)
  case (JString s)
  then show ?case unfolding parses_def by (auto simp: Suc_le_eq gr0_conv_Suc)
next
  case (JArray vs)
  then show ?case by (intro parse_array) auto
next
  case (JObject ms)
  then show ?case by (intro parse_object) force
qed (auto intro: word_null word_bool word_number)

section \<open>The round trip\<close>

lemma plain_tokens_append:
  "plain_tokens xs \<Longrightarrow> plain_tokens (t # ys) \<Longrightarrow> t \<in> {RBrace, RBracket, Comma} \<Longrightarrow> plain_tokens (xs @ t # ys)"
  by (induction xs rule: plain_tokens.induct) (auto split: list.splits)

lemma plain_separated:
  "\<forall>x\<in>set xss. plain_tokens x \<Longrightarrow> t \<in> {RBrace, RBracket} \<Longrightarrow> plain_tokens (comma_separated xss @ [t])"
proof (induction xss rule: comma_separated.induct)
  case (3 x y ys)
  then have "plain_tokens (Comma # comma_separated (y # ys) @ [t])" by simp
  with 3 show ?case using plain_tokens_append [of x Comma] by simp
qed (auto intro!: plain_tokens_append)

lemma number_chars:
  "\<forall>c\<in>set ''0123456789+-.eE''. \<not> is_space c \<and> c \<noteq> CHR 0x22 \<and> punctuation c = None"
  by (simp add: is_space_def punctuation_def)

lemma number_word: "is_number s \<Longrightarrow> plain_word s"
  unfolding is_number_def plain_word_def list_all_iff using number_chars by blast

lemma literal_words: "plain_word ''null''" "plain_word ''true''" "plain_word ''false''"
  by (simp_all add: plain_word_def is_space_def punctuation_def)

lemma plain_json_tokens: "plain_json v \<Longrightarrow> plain_tokens (json_tokens v)"
proof (induction v)
  case (JArray vs)
  then have "\<forall>x\<in>set (map json_tokens vs). plain_tokens x" by simp
  from plain_separated [OF this, of RBracket] show ?case by simp
next
  case (JObject ms)
  have "\<forall>x\<in>set (map member_tokens ms). plain_tokens x"
  proof
    fix x assume "x \<in> set (map member_tokens ms)"
    then obtain k v where kv: "(k, v) \<in> set ms" "x = TString k # Colon # json_tokens v" by auto
    with JObject.prems have "plain_text k" "plain_json v" by auto
    moreover from JObject.IH [OF kv(1), of v] \<open>plain_json v\<close> have "plain_tokens (json_tokens v)" by simp
    ultimately show "plain_tokens x" using kv(2) by simp
  qed
  from plain_separated [OF this, of RBrace] show ?case by simp
qed (simp_all add: number_word literal_words)

lemma read_write_json: "plain_json v \<Longrightarrow> read_json (write_json v) = Some v"
  using parsesD [OF parses_plain, of v "Suc (length (json_tokens v))" "[]"]
  by (simp add: read_json_def write_json_def tokens_text plain_json_tokens Let_def del: parse_value.simps)

end
