(* ===== verification/MergePaths.thy ===== *)
theory MergePaths
  imports Json "HOL-Library.Sublist"
begin

text \<open>
  Merge patches by the paths they change: fields at paths beside the changed ones stay as they are.
  It turns the effect of a patch with many fields into a list of paths and the values there.
\<close>

section \<open>The paths a patch changes\<close>

definition below :: "json \<Rightarrow> string \<Rightarrow> json" where
  "below d k = (case field d k of Some v \<Rightarrow> v | None \<Rightarrow> JNull)"

fun is_object :: "json \<Rightarrow> bool" where
  "is_object (JObject ms) = True"
| "is_object v = False"

text \<open>Anything but an object replaces what is there; an empty object changes what is no object.\<close>

function (sequential) changes :: "json \<Rightarrow> json \<Rightarrow> string list list"
  and changes_members :: "json \<Rightarrow> (string \<times> json) list \<Rightarrow> string list list" where
  "changes d (JObject []) = (if is_object d then [] else [[]])"
| "changes d (JObject (x # xs)) = changes_members d (x # xs)"
| "changes d p = [[]]"
| "changes_members d [] = []"
| "changes_members d ((k, p) # ps) = map ((#) k) (changes (below d k) p) @ changes_members d ps"
  by pat_completeness auto
termination
  by (relation "measure (\<lambda>x. case x of Inl (t, p) \<Rightarrow> 2 * size p
      | Inr (ts, ps) \<Rightarrow> Suc (2 * size_list (size_prod (\<lambda>_. 0) size) ps))") auto

fun distinct_keys :: "json \<Rightarrow> bool" where
  "distinct_keys (JObject ms) = (distinct (map fst ms) \<and> (\<forall>(k, v)\<in>set ms. distinct_keys v))"
| "distinct_keys v = True"

lemma set_changes_members: "set (changes_members d ps) = (\<Union>(k, p)\<in>set ps. (#) k ` set (changes (below d k) p))"
proof (induction ps)
  case (Cons x ps)
  then show ?case by (cases x) simp
qed simp

lemma changes_object:
  "set (changes d (JObject ps)) =
     (if ps = [] \<and> \<not> is_object d then {[]} else \<Union>(k, p)\<in>set ps. (#) k ` set (changes (below d k) p))"
  by (cases ps) (auto simp: set_changes_members)

lemma below_JNull [simp]: "below JNull k = JNull"
  by (simp add: below_def field_def)

section \<open>Lookup after a merge\<close>

lemma merge_members_lookup:
  "distinct (map fst ps) \<Longrightarrow> map_of (merge_members ts ps) k =
     (case map_of ps k of
        None \<Rightarrow> map_of ts k
      | Some p \<Rightarrow> if p = JNull then None
          else Some (merge (case map_of ts k of Some t \<Rightarrow> t | None \<Rightarrow> JNull) p))"
proof (induction ps arbitrary: ts)
  case (Cons x ps)
  obtain l p where x: "x = (l, p)" by (cases x)
  with Cons.prems have "l \<notin> dom (map_of ps)" "distinct (map fst ps)" by (auto simp: dom_map_of_conv_image_fst)
  then show ?case
    using x Cons.IH
    by (cases "k = l") (auto simp: AList.delete_conv' AList.update_conv' split: option.split)
qed simp

lemma field_merge:
  "distinct (map fst ps) \<Longrightarrow> field (merge d (JObject ps)) k =
     (case map_of ps k of
        None \<Rightarrow> field d k
      | Some p \<Rightarrow> if p = JNull then None else Some (merge (below d k) p))"
  by (auto simp: field_def below_def merge_members_lookup split: option.split)

lemma field_at_merge:
  "distinct (map fst ps) \<Longrightarrow> field_at (merge d (JObject ps)) (k # ks) =
     (case map_of ps k of
        None \<Rightarrow> field_at d (k # ks)
      | Some p \<Rightarrow> if p = JNull then None else field_at (merge (below d k) p) ks)"
  by (simp add: field_merge split: option.split del: merge.simps)

lemma merge_string: "merge d (JString s) = JString s"
  by simp

lemma field_at_JNull [simp]: "ks \<noteq> [] \<Longrightarrow> field_at JNull ks = None"
  by (cases ks) (simp_all add: field_def)

lemma field_at_below: "ks \<noteq> [] \<Longrightarrow> field_at (below d k) ks = field_at d (k # ks)"
  by (simp add: below_def split: option.split)

section \<open>Paths beside the changed ones\<close>

text \<open>Where there is nothing, every patch changes something.\<close>

lemma changes_JNull [simp]: "changes JNull q \<noteq> []"
proof (induction q)
  case (JObject ms)
  have "changes JNull v \<noteq> []" if "(k, v) \<in> set ms" for k v
    using JObject.IH [OF that, of v] by simp
  then show ?case by (cases ms) force+
qed auto

lemma no_changes_field: "changes (below d k) q = [] \<Longrightarrow> \<exists>v. field d k = Some v"
  by (cases "field d k") (simp_all add: below_def)

lemma merge_unchanged:
  "distinct_keys p \<Longrightarrow> changes d p = [] \<Longrightarrow> merge d p = d"
  "distinct (map fst ps) \<Longrightarrow> \<forall>(k, q)\<in>set ps. distinct_keys q \<Longrightarrow> changes_members d ps = [] \<Longrightarrow>
     merge_members (members d) ps = members d \<and> (ps \<noteq> [] \<longrightarrow> is_object d)"
proof (induction d p and d ps rule: changes_changes_members.induct)
  case (1 d)
  then show ?case by (cases d) auto
next
  case (2 d x xs)
  then have "merge_members (members d) (x # xs) = members d \<and> is_object d" by auto
  then show ?case by (cases d) auto
next
  case (5 d k q ps)
  then have same: "merge (below d k) q = below d k" and q: "changes (below d k) q = []" by auto
  from q have not_null: "q \<noteq> JNull" by auto
  from no_changes_field [OF q] obtain v where v: "map_of (members d) k = Some v" by (auto simp: field_def)
  with same have "merge v q = v" by (simp add: below_def field_def)
  moreover from v have "is_object d" by (cases d) auto
  ultimately show ?case using 5 v not_null by (simp add: AList.update_triv)
qed auto

lemma field_at_beside:
  "distinct_keys p \<Longrightarrow> \<forall>q\<in>set (changes d p). parallel q path \<Longrightarrow>
   field_at (merge d p) path = field_at d path"
proof (induction path arbitrary: d p)
  case Nil
  then have "changes d p = []" by (cases "changes d p") auto
  with Nil show ?case by (simp add: merge_unchanged)
next
  case (Cons k ks)
  show ?case
  proof (cases p)
    case (JObject ps)
    with Cons.prems have dist: "distinct (map fst ps)" by simp
    show ?thesis
    proof (cases "map_of ps k")
      case None
      then show ?thesis unfolding JObject field_at_merge [OF dist] by simp
    next
      case (Some q)
      then have mem: "(k, q) \<in> set ps" by (rule map_of_SomeD)
      then have "(#) k ` set (changes (below d k) q) \<subseteq> set (changes d p)"
        unfolding JObject changes_object by (cases "ps = []") auto
      with Cons.prems(2) have beside: "\<forall>r\<in>set (changes (below d k) q). parallel r ks"
        by (metis Cons_prefix_Cons image_subset_iff parallel_def)
      then have "q \<noteq> JNull" by (auto simp: parallel_def)
      moreover from mem Cons.prems(1) JObject have "distinct_keys q" by auto
      ultimately have step: "field_at (merge d p) (k # ks) = field_at (below d k) ks"
        unfolding JObject field_at_merge [OF dist] using Some Cons.IH [OF _ beside] by simp
      show ?thesis
      proof (cases "ks = []")
        case False
        then show ?thesis using step by (simp add: field_at_below del: field_at.simps)
      next
        case True
        with beside have none: "changes (below d k) q = []" by (cases "changes (below d k) q") auto
        from no_changes_field [OF this] step True show ?thesis by (auto simp: below_def)
      qed
    qed
  qed (use Cons.prems in \<open>auto simp: parallel_def\<close>)
qed

end
