(* ===== verification/ClaimPatch.thy ===== *)
theory ClaimPatch
  imports Tools JsonWrite MergePaths
begin

text \<open>
  The merge patches whose body is a marshalled claim, and their effect on the document of a claim.
  \<^verbatim>\<open>json.Marshal\<close> is not code of the repository: it is a parameter, with what its documentation and
  the field tags of the API module promise as the contract below.
\<close>

section \<open>What a marshalled claim looks like\<close>

text \<open>Texts \<^verbatim>\<open>json.Marshal\<close> writes as they are: it escapes the HTML characters too.\<close>

definition unescaped :: "string \<Rightarrow> bool" where
  "unescaped s \<longleftrightarrow> plain_text s \<and>
     list_all (\<lambda>c. c \<notin> {CHR ''<'', CHR ''>'', CHR ''&''} \<and> (of_char c :: nat) < 128) s"

text \<open>
  The fields of a claim with annotations and a volume name only. Whether the three zero fields of
  struct type are written depends on the version of the API module, so each may be there or not.
\<close>

definition marshals_to :: "pvc \<Rightarrow> json \<Rightarrow> bool" where
  "marshals_to c d \<longleftrightarrow> (\<exists>as ts rs st.
     distinct (map fst as) \<and> (\<forall>k. map_of as k = map_option JString (pvc_Annotations c k)) \<and>
     ts \<in> {[], [(''creationTimestamp'', JNull)]} \<and>
     rs \<in> {[], [(''resources'', JObject [])]} \<and>
     st \<in> {[], [(''status'', JObject [])]} \<and>
     d = JObject ([(''metadata'', JObject (ts @ (if as = [] then [] else [(''annotations'', JObject as)]))),
                   (''spec'', JObject (rs @ (if pvc_VolumeName c = [] then [] else [(''volumeName'', JString (pvc_VolumeName c))])))]
                  @ st))"

definition marshal_contract :: "(pvc \<Rightarrow> string) \<Rightarrow> bool" where
  "marshal_contract marshal \<longleftrightarrow>
     (\<forall>ann vol. finite (dom ann) \<and> (\<forall>k v. ann k = Some v \<longrightarrow> unescaped k \<and> unescaped v) \<and> unescaped vol \<longrightarrow>
        (\<exists>d. read_json (marshal (zero_pvc\<lparr>pvc_Annotations := ann, pvc_VolumeName := vol\<rparr>)) = Some d \<and>
             marshals_to (zero_pvc\<lparr>pvc_Annotations := ann, pvc_VolumeName := vol\<rparr>) d))"

section \<open>The effect of such a patch\<close>

text \<open>A stored claim always has these objects.\<close>

definition claim_document :: "json \<Rightarrow> bool" where
  "claim_document d \<longleftrightarrow> is_object d \<and> is_object (below d ''metadata'') \<and>
     is_object (below d ''spec'') \<and> is_object (below (below d ''spec'') ''resources'') \<and>
     is_object (below d ''status'')"

definition claim_paths :: "pvc \<Rightarrow> string list set" where
  "claim_paths c = {[''metadata'', ''creationTimestamp''], [''spec'', ''volumeName'']} \<union>
     (\<lambda>k. [''metadata'', ''annotations'', k]) ` dom (pvc_Annotations c)"

definition unchanged_beside :: "string list set \<Rightarrow> json \<Rightarrow> json \<Rightarrow> bool" where
  "unchanged_beside P d e \<longleftrightarrow> (\<forall>path. (\<forall>q\<in>P. parallel q path) \<longrightarrow> field_at e path = field_at d path)"

text \<open>
  A marshalled claim may say that its creation time is null, and then the merge takes the time away
  (the API server puts it back).
\<close>

definition creation_kept :: "json \<Rightarrow> json \<Rightarrow> bool" where
  "creation_kept d e \<longleftrightarrow>
     field_at e [''metadata'', ''creationTimestamp''] \<in> {field_at d [''metadata'', ''creationTimestamp''], None}"

definition patched_claim :: "pvc \<Rightarrow> json \<Rightarrow> json \<Rightarrow> bool" where
  "patched_claim c d e \<longleftrightarrow>
     (pvc_VolumeName c \<noteq> [] \<longrightarrow> field_at e [''spec'', ''volumeName''] = Some (JString (pvc_VolumeName c))) \<and>
     (\<forall>k v. pvc_Annotations c k = Some v \<longrightarrow> field_at e [''metadata'', ''annotations'', k] = Some (JString v)) \<and>
     creation_kept d e \<and> unchanged_beside (claim_paths c) d e"

lemma changes_strings:
  "\<forall>k. map_of as k = map_option JString (ann k) \<Longrightarrow> distinct (map fst as) \<Longrightarrow>
   set (changes_members d as) = (\<lambda>k. [k]) ` dom ann"
proof -
  assume as: "\<forall>k. map_of as k = map_option JString (ann k)" "distinct (map fst as)"
  have "\<exists>v. p = JString v" if "(k, p) \<in> set as" for k p
    using as(1) [rule_format, of k] map_of_is_SomeI [OF as(2) that] by (cases "ann k") auto
  then have "set (changes_members d as) = (\<lambda>k. [k]) ` fst ` set as"
    unfolding set_changes_members by force
  also have "fst ` set as = dom ann"
    unfolding dom_map_of_conv_image_fst [symmetric] using as(1) by (auto simp: dom_def)
  finally show ?thesis .
qed

lemma image_paths:
  "A \<subseteq> {[b]} \<union> (\<lambda>k. [c, k]) ` D \<Longrightarrow> B \<subseteq> {[e]} \<Longrightarrow>
   (#) x ` A \<union> (#) y ` B \<subseteq> {[x, b], [y, e]} \<union> (\<lambda>k. [x, c, k]) ` D"
  by auto

lemma marshalled_changes:
  assumes "marshals_to c p" and "claim_document d"
  shows "set (changes d p) \<subseteq> claim_paths c" and "distinct_keys p"
proof -
  from assms(1) obtain as ts rs st where
    as: "distinct (map fst as)" "\<forall>k. map_of as k = map_option JString (pvc_Annotations c k)"
    and opt: "ts = [] \<or> ts = [(''creationTimestamp'', JNull)]" "rs = [] \<or> rs = [(''resources'', JObject [])]"
      "st = [] \<or> st = [(''status'', JObject [])]"
    and p: "p = JObject ([(''metadata'', JObject (ts @ (if as = [] then [] else [(''annotations'', JObject as)]))),
       (''spec'', JObject (rs @ (if pvc_VolumeName c = [] then [] else [(''volumeName'', JString (pvc_VolumeName c))])))] @ st)"
    unfolding marshals_to_def by auto
  let ?m = "JObject (ts @ (if as = [] then [] else [(''annotations'', JObject as)]))"
  let ?s = "JObject (rs @ (if pvc_VolumeName c = [] then [] else [(''volumeName'', JString (pvc_VolumeName c))]))"
  have strings: "as \<noteq> [] \<Longrightarrow> set (changes e (JObject as)) = (\<lambda>k. [k]) ` dom (pvc_Annotations c)" for e
    using changes_strings [OF as(2,1), of e] by (cases as) auto
  have meta: "set (changes (below d ''metadata'') ?m)
      \<subseteq> {[''creationTimestamp'']} \<union> (\<lambda>k. [''annotations'', k]) ` dom (pvc_Annotations c)"
  proof (cases "as = []")
    case True
    then show ?thesis
      using assms(2) opt(1) unfolding claim_document_def by (auto simp: changes_object)
  next
    case False
    then have "set (changes (below d ''metadata'') ?m) = (\<Union>(k, q)\<in>set (ts @ [(''annotations'', JObject as)]).
        (#) k ` set (changes (below (below d ''metadata'') k) q))"
      by (simp add: changes_object del: changes.simps(1,2))
    also have "\<dots> \<subseteq> {[''creationTimestamp'']} \<union> (\<lambda>k. [''annotations'', k]) ` dom (pvc_Annotations c)"
      using opt(1) False by (auto simp: strings simp del: changes.simps(1,2))
    finally show ?thesis .
  qed
  have spec: "set (changes (below d ''spec'') ?s) \<subseteq> {[''volumeName'']}"
    using assms(2) opt(2) unfolding claim_document_def by (subst changes_object) auto
  have top: "set (changes d (JObject ([(''metadata'', m), (''spec'', t)] @ st))) \<subseteq>
      (#) ''metadata'' ` set (changes (below d ''metadata'') m) \<union> (#) ''spec'' ` set (changes (below d ''spec'') t)" for m t
    using assms(2) opt(3) by (elim disjE) (simp_all add: claim_document_def)
  from image_paths [OF meta spec, of "''metadata''" "''spec''"] top [of ?m ?s] have "set (changes d p) \<subseteq> claim_paths c"
    unfolding p claim_paths_def by (rule order_trans [rotated])
  then show "set (changes d p) \<subseteq> claim_paths c" .
  have "distinct_keys q" if "(k, q) \<in> set as" for k q
    using as(2) [rule_format, of k] map_of_is_SomeI [OF as(1) that] by (cases "pvc_Annotations c k") auto
  then show "distinct_keys p" using as(1) opt unfolding p by auto
qed

text \<open>The values are there whatever the document was.\<close>

definition has_values :: "pvc \<Rightarrow> json \<Rightarrow> bool" where
  "has_values c e \<longleftrightarrow>
     (pvc_VolumeName c \<noteq> [] \<longrightarrow> field_at e [''spec'', ''volumeName''] = Some (JString (pvc_VolumeName c))) \<and>
     (\<forall>k v. pvc_Annotations c k = Some v \<longrightarrow> field_at e [''metadata'', ''annotations'', k] = Some (JString v))"

lemma marshalled_values:
  assumes "marshals_to c p"
  shows "has_values c (merge d p)"
proof -
  from assms obtain as ts rs st where
    as: "distinct (map fst as)" "\<forall>k. map_of as k = map_option JString (pvc_Annotations c k)"
    and opt: "ts = [] \<or> ts = [(''creationTimestamp'', JNull)]" "rs = [] \<or> rs = [(''resources'', JObject [])]"
      "st = [] \<or> st = [(''status'', JObject [])]"
    and p: "p = JObject ([(''metadata'', JObject (ts @ (if as = [] then [] else [(''annotations'', JObject as)]))),
       (''spec'', JObject (rs @ (if pvc_VolumeName c = [] then [] else [(''volumeName'', JString (pvc_VolumeName c))])))] @ st)"
    unfolding marshals_to_def by auto
  have "distinct (map fst ([(''metadata'', JObject q), (''spec'', JObject r)] @ st))" for q r
    using opt by auto
  note top = field_at_merge [OF this]
  have spec: "distinct (map fst (rs @ [(''volumeName'', v)]))" and meta: "distinct (map fst (ts @ [(''annotations'', v)]))"
    for v :: json using opt by auto
  have "field_at (merge d p) [''spec'', ''volumeName''] = Some (JString (pvc_VolumeName c))"
    if "pvc_VolumeName c \<noteq> []"
    unfolding p top using that opt
    by (auto simp: field_at_merge [OF spec] merge_string simp del: merge.simps field_at.simps(2))
  moreover have "field_at (merge d p) [''metadata'', ''annotations'', k] = Some (JString v)"
    if "pvc_Annotations c k = Some v" for k v
  proof -
    from that as(2) have k: "map_of as k = Some (JString v)" by simp
    then have "as \<noteq> []" by auto
    then show ?thesis
      unfolding p top using k opt
      by (auto simp: field_at_merge [OF meta] field_at_merge [OF as(1)] merge_string simp del: merge.simps field_at.simps(2))
  qed
  ultimately show ?thesis by (simp add: has_values_def)
qed

lemma marshalled_creation:
  assumes "marshals_to c p"
  shows "creation_kept d (merge d p)"
proof -
  from assms obtain as ts q st where
    opt: "ts = [] \<or> ts = [(''creationTimestamp'', JNull)]" "st = [] \<or> st = [(''status'', JObject [])]"
    and p: "p = JObject ([(''metadata'', JObject (ts @ (if as = [] then [] else [(''annotations'', JObject as)]))),
       (''spec'', JObject q)] @ st)"
    unfolding marshals_to_def by auto
  have "distinct (map fst ([(''metadata'', JObject r), (''spec'', JObject q)] @ st))" for r
    using opt by auto
  note top = field_at_merge [OF this]
  have meta: "distinct (map fst (ts @ (if as = [] then [] else [(''annotations'', JObject as)])))"
    using opt by auto
  have "field_at (merge d p) [''metadata'', ''creationTimestamp''] =
      (if ts = [] then field_at (below d ''metadata'') [''creationTimestamp''] else None)"
    unfolding p top using opt
    by (auto simp: field_at_merge [OF meta] simp del: merge.simps field_at.simps(2))
  then show ?thesis by (auto simp: creation_kept_def field_at_below simp del: field_at.simps)
qed

lemma marshalled_effect:
  assumes "marshals_to c p" and "claim_document d"
  shows "patched_claim c d (merge d p)"
  using marshalled_values [OF assms(1), of d] marshalled_creation [OF assms(1), of d] marshalled_changes [OF assms]
    field_at_beside
  unfolding patched_claim_def has_values_def unchanged_beside_def by blast

section \<open>The text of a body\<close>

definition body_text :: "(pvc \<Rightarrow> string) \<Rightarrow> patch_body \<Rightarrow> string" where
  "body_text marshal b = (case b of Raw s \<Rightarrow> s | Marshalled c \<Rightarrow> marshal c)"

lemma body_text_simps [simp]: "body_text marshal (Raw s) = s" "body_text marshal (Marshalled c) = marshal c"
  by (simp_all add: body_text_def)

text \<open>Anything the contract covers is read back, and has the effect of its fields.\<close>

lemma marshalled_body:
  assumes "marshal_contract marshal" and "finite (dom ann)" and "\<forall>k v. ann k = Some v \<longrightarrow> unescaped k \<and> unescaped v"
    and "unescaped vol"
  shows "\<exists>p. read_json (marshal (zero_pvc\<lparr>pvc_Annotations := ann, pvc_VolumeName := vol\<rparr>)) = Some p \<and>
     (\<forall>d. claim_document d \<longrightarrow>
        patched_claim (zero_pvc\<lparr>pvc_Annotations := ann, pvc_VolumeName := vol\<rparr>) d (merge d p)) \<and>
     (\<forall>d. has_values (zero_pvc\<lparr>pvc_Annotations := ann, pvc_VolumeName := vol\<rparr>) (merge d p))"
proof -
  from assms obtain p where
    "read_json (marshal (zero_pvc\<lparr>pvc_Annotations := ann, pvc_VolumeName := vol\<rparr>)) = Some p"
    and p: "marshals_to (zero_pvc\<lparr>pvc_Annotations := ann, pvc_VolumeName := vol\<rparr>) p"
    unfolding marshal_contract_def by blast
  then show ?thesis using marshalled_effect [OF p] marshalled_values [OF p] by blast
qed

section \<open>A marshaller\<close>

text \<open>The annotations in the order of their keys, as \<^verbatim>\<open>json.Marshal\<close> writes a map.\<close>

definition annotation_members :: "(string \<rightharpoonup> string) \<Rightarrow> (string \<times> json) list" where
  "annotation_members ann = map (\<lambda>k. (k, JString (the (ann k)))) (sorted_list_of_set (dom ann))"

definition sample_marshal :: "pvc \<Rightarrow> string" where
  "sample_marshal c = write_json (JObject
     [(''metadata'', JObject (if dom (pvc_Annotations c) = {} then []
        else [(''annotations'', JObject (annotation_members (pvc_Annotations c)))])),
      (''spec'', JObject ((''resources'', JObject []) #
        (if pvc_VolumeName c = [] then [] else [(''volumeName'', JString (pvc_VolumeName c))]))),
      (''status'', JObject [])])"

lemma plain_keywords:
  "plain_text ''metadata''" "plain_text ''annotations''" "plain_text ''spec''" "plain_text ''resources''"
  "plain_text ''volumeName''" "plain_text ''status''"
  by (simp_all add: plain_text_def control_def)

lemma annotation_members_lookup:
  assumes "finite (dom ann)"
  shows "map_of (annotation_members ann) k = map_option JString (ann k)"
proof -
  have "map_of (annotation_members ann) k = (if k \<in> dom ann then Some (JString (the (ann k))) else None)"
    using assms by (simp add: annotation_members_def map_of_map_keys [symmetric] map_of_map_restrict)
  then show ?thesis by (auto simp: domIff)
qed

lemma sample_marshal_contract: "marshal_contract sample_marshal"
  unfolding marshal_contract_def
proof (intro allI impI)
  fix ann :: "string \<rightharpoonup> string" and vol :: string
  assume asm: "finite (dom ann) \<and> (\<forall>k v. ann k = Some v \<longrightarrow> unescaped k \<and> unescaped v) \<and> unescaped vol"
  let ?c = "zero_pvc\<lparr>pvc_Annotations := ann, pvc_VolumeName := vol\<rparr>"
  let ?as = "annotation_members ann"
  let ?d = "JObject ([(''metadata'', JObject ([] @ (if ?as = [] then [] else [(''annotations'', JObject ?as)]))),
       (''spec'', JObject ([(''resources'', JObject [])] @ (if vol = [] then [] else [(''volumeName'', JString vol)])))]
       @ [(''status'', JObject [])])"
  have empty: "?as = [] \<longleftrightarrow> dom ann = {}"
    using asm by (simp add: annotation_members_def)
  have plain: "plain_text k" "plain_text v" if "ann k = Some v" for k v
    using asm that by (auto simp: unescaped_def)
  have "plain_text k \<and> plain_json v" if "(k, v) \<in> set ?as" for k v
    using that asm plain by (fastforce simp: annotation_members_def)
  moreover have "plain_text vol" using asm by (simp add: unescaped_def)
  ultimately have "plain_json ?d" using plain_keywords by auto
  moreover have "sample_marshal ?c = write_json ?d"
    by (simp add: sample_marshal_def empty)
  ultimately have "read_json (sample_marshal ?c) = Some ?d"
    by (simp only: read_write_json)
  moreover have "distinct (map fst ?as)"
    by (simp add: annotation_members_def comp_def)
  then have "marshals_to ?c ?d"
    unfolding marshals_to_def using asm
    by (intro exI [where x = ?as] exI [where x = "[]"] exI [where x = "[(''resources'', JObject [])]"]
        exI [where x = "[(''status'', JObject [])]"]) (simp add: annotation_members_lookup)
  ultimately show "\<exists>d. read_json (sample_marshal ?c) = Some d \<and> marshals_to ?c d" by blast
qed

section \<open>Properties\<close>

text \<open>
  C27: what \<^verbatim>\<open>PVCCreateOrUpdate\<close> updates. When it succeeds it has either created the claim it was given,
  or, after any failure of the creation, sent one merge patch that writes the volume name into the document
  of the claim and changes nothing else of it, but that the creation time may be dropped, which the API
  server restores: size, class, annotations and finalizers of the claim it was given are not looked at.
\<close>

theorem PVCCreateOrUpdate_effect:
  assumes "marshal_contract marshal" and "unescaped (pvc_VolumeName claim)" and "pvc_VolumeName claim \<noteq> []"
    and "run_state (PVCCreateOrUpdate c claim) w = (Inr res, w')"
  shows "calls w' = calls w @ [CreatePVC (pvc_Namespace claim) claim (Inr res)] \<or>
     (\<exists>err b p. calls w' = calls w @
          [CreatePVC (pvc_Namespace claim) claim (Inl err), PatchPVC (pvc_Namespace claim) (pvc_Name claim) b (Inr res)] \<and>
        read_json (body_text marshal b) = Some p \<and>
        (\<forall>d. claim_document d \<longrightarrow>
           field_at (merge d p) [''spec'', ''volumeName''] = Some (JString (pvc_VolumeName claim)) \<and>
           creation_kept d (merge d p) \<and>
           unchanged_beside {[''metadata'', ''creationTimestamp''], [''spec'', ''volumeName'']} d (merge d p)))"
proof (cases "fst (cl_CreatePVC c (pvc_Namespace claim) claim (env w))")
  case (Inr created)
  with assms(4) show ?thesis
    by (auto simp: PVCCreateOrUpdate_def create_pvc_def split: prod.splits)
next
  case (Inl err)
  let ?b = "zero_pvc\<lparr>pvc_VolumeName := pvc_VolumeName claim\<rparr>"
  have "calls w' = calls w @ [CreatePVC (pvc_Namespace claim) claim (Inl err),
      PatchPVC (pvc_Namespace claim) (pvc_Name claim) (Marshalled ?b) (Inr res)]"
    using assms(4) Inl by (auto simp: PVCCreateOrUpdate_def create_pvc_def patch_pvc_def split: prod.splits sum.splits)
  moreover have "?b = zero_pvc\<lparr>pvc_Annotations := Map.empty, pvc_VolumeName := pvc_VolumeName claim\<rparr>"
    by (simp add: zero_pvc_def)
  then obtain p where "read_json (body_text marshal (Marshalled ?b)) = Some p"
    "\<forall>d. claim_document d \<longrightarrow> patched_claim ?b d (merge d p)"
    using marshalled_body [OF assms(1), of Map.empty "pvc_VolumeName claim"] assms(2) by auto
  moreover have "pvc_Annotations ?b = Map.empty" by (simp add: zero_pvc_def)
  ultimately show ?thesis
    using assms(3) by (intro disjI2) (auto simp: patched_claim_def claim_paths_def)
qed

definition exists_client :: "unit client" where
  "exists_client = sample_client\<lparr>cl_CreatePVC := (\<lambda>ns c e. (Inl (OtherApiError ''exists''), e))\<rparr>"

theorem PVCCreateOrUpdate_effect_witness:
  "\<exists>b p. calls (snd (run_state (PVCCreateOrUpdate exists_client sample_claim) sample_world)) =
       [CreatePVC ''default'' sample_claim (Inl (OtherApiError ''exists'')), PatchPVC ''default'' ''pvc-1'' b (Inr sample_claim)] \<and>
     read_json (body_text sample_marshal b) = Some p \<and>
     field_at (merge (JObject [(''metadata'', JObject []), (''spec'', JObject [(''resources'', JObject [])]), (''status'', JObject [])]) p)
       [''spec'', ''volumeName''] = Some (JString ''pv-1'')"
proof -
  let ?d = "JObject [(''metadata'', JObject []), (''spec'', JObject [(''resources'', JObject [])]), (''status'', JObject [])]"
  let ?w = "snd (run_state (PVCCreateOrUpdate exists_client sample_claim) sample_world)"
  have vol: "pvc_VolumeName sample_claim = ''pv-1''" "pvc_Namespace sample_claim = ''default''" "pvc_Name sample_claim = ''pvc-1''"
    by (simp_all add: sample_claim_def)
  have plain: "unescaped (pvc_VolumeName sample_claim)" "pvc_VolumeName sample_claim \<noteq> []"
    unfolding vol by (simp_all add: unescaped_def plain_text_def control_def)
  have run: "run_state (PVCCreateOrUpdate exists_client sample_claim) sample_world = (Inr sample_claim, ?w)"
    by (simp add: PVCCreateOrUpdate_def create_pvc_def patch_pvc_def exists_client_def sample_client_def)
  have log: "calls ?w = [CreatePVC ''default'' sample_claim (Inl (OtherApiError ''exists'')),
      PatchPVC ''default'' ''pvc-1'' (Marshalled (zero_pvc\<lparr>pvc_VolumeName := ''pv-1''\<rparr>)) (Inr sample_claim)]"
    by (simp add: PVCCreateOrUpdate_def create_pvc_def patch_pvc_def exists_client_def sample_client_def
        sample_world_def vol)
  have "claim_document ?d" by (simp add: claim_document_def below_def field_def)
  with PVCCreateOrUpdate_effect [OF sample_marshal_contract plain run] log show ?thesis
    unfolding vol by (auto simp: sample_world_def simp del: field_at.simps merge.simps)
qed

end
