(* ===== verification/ClaimState.thy ===== *)
theory ClaimState
  imports Interleaving ClaimPatch
begin

text \<open>
  The user's claim after a run of \<^verbatim>\<open>Provision\<close>: the claim patches that went through, merged in their
  order into the claim's document, and the state the claim is left in whichever way the run ends.
\<close>

section \<open>The claim patches of a log\<close>

definition applied_claims :: "call list \<Rightarrow> ((string \<times> string) \<times> patch_body) list" where
  "applied_claims tr = List.map_filter
     (\<lambda>x. case x of PatchPVC ns name b (Inr c) \<Rightarrow> Some ((ns, name), b) | _ \<Rightarrow> None) tr"

lemma applied_claims_simps [simp]:
  "applied_claims [] = []"
  "applied_claims (tr @ tr') = applied_claims tr @ applied_claims tr'"
  "applied_claims (x # tr) = (case x of PatchPVC ns name b (Inr c) \<Rightarrow> [((ns, name), b)] | _ \<Rightarrow> []) @ applied_claims tr"
  by (simp_all add: applied_claims_def List.map_filter_def split: call.split sum.split)

definition unprotecting :: "pvc \<Rightarrow> (string \<times> string) \<times> patch_body" where
  "unprotecting c = ((pvc_Namespace c, pvc_Name c), finalizers_patch (pvc_Finalizers c))"

definition bonding :: "proto \<Rightarrow> pv \<Rightarrow> (string \<times> string) \<times> patch_body" where
  "bonding x v = ((wanted_ns x, pvc_Name (opt_PVC (pr_opts x))), bond_patch (pr_class x) (pv_Name v))"

fun phase_claims :: "proto \<Rightarrow> phase \<Rightarrow> ((string \<times> string) \<times> patch_body) list" where
  "phase_claims x (Unprotected c) = [unprotecting c]"
| "phase_claims x (ClaimGone c) = [unprotecting c]"
| "phase_claims x (Freed c v) = [unprotecting c]"
| "phase_claims x (Bonded c v) = [unprotecting c, bonding x v]"
| "phase_claims x (Settled c v) = [unprotecting c, bonding x v]"
| "phase_claims x (Stopped ph) = phase_claims x ph"
| "phase_claims x ph = []"

lemma bound_phase_claims [simp]: "phase_claims x (bound_phase ph claim) = []"
  by (cases ph) auto

lemma waiting_claims [simp]: "waiting x ph \<Longrightarrow> phase_claims x ph = []"
  by (cases ph) auto

lemma claims_reach: "proto_reach x tr ph \<Longrightarrow> applied_claims tr = phase_claims x ph"
proof (induction rule: proto_reach.induct)
  case reach_start
  then show ?case by simp
next
  case (reach_step tr ph c ph')
  from reach_step.hyps(2) reach_step.IH show ?case
    by (cases rule: proto_step.cases) (auto simp: unprotecting_def bonding_def)
qed

text \<open>The patches of the user's claim, whose name is not that of the backing claim.\<close>

definition to_user :: "ProvisionOptions \<Rightarrow> call list \<Rightarrow> patch_body list" where
  "to_user opts tr = map snd (filter
     (\<lambda>x. fst x = (pvc_Namespace (opt_PVC opts), pvc_Name (opt_PVC opts))) (applied_claims tr))"

lemma phase_claims_cases:
  "progress ph < 5 \<and> (phase_claims x ph = [] \<or> (\<exists>c. phase_claim ph = Some c \<and> phase_claims x ph = [unprotecting c])) \<or>
   (\<exists>c v. phase_claim ph = Some c \<and> phase_volume ph = Some v \<and> 5 \<le> progress ph \<and>
      phase_claims x ph = [unprotecting c, bonding x v])"
  by (induction ph) auto

lemma to_user_reach:
  assumes "proto_reach x tr ph" and "honest tr" and "opt_PVName (pr_opts x) \<noteq> pvc_Name (opt_PVC (pr_opts x))"
  shows "to_user (pr_opts x) tr = [] \<and> progress ph < 5 \<or>
    (\<exists>v. phase_volume ph = Some v \<and> 5 \<le> progress ph \<and> to_user (pr_opts x) tr = [bond_patch (pr_class x) (pv_Name v)])"
proof -
  have "pvc_Name c \<noteq> pvc_Name (opt_PVC (pr_opts x))" if "phase_claim ph = Some c" for c
    using phase_claim_honest [OF assms(1) that assms(2)] assms(3) by (simp add: wanted_name_def)
  with phase_claims_cases [of ph x] show ?thesis
    unfolding to_user_def claims_reach [OF assms(1)]
    by (auto simp: unprotecting_def bonding_def wanted_ns_def)
qed

lemma waiting_progress: "waiting x ph \<Longrightarrow> progress ph = 0"
  by (cases ph) auto

lemma stopped_bonded:
  assumes "proto_reach x tr (Stopped ph)" and "5 \<le> progress ph"
  shows "\<exists>v e. phase_volume ph = Some v \<and> deletes_volume x \<and>
     last tr = PatchPV (pv_Name v) (claim_ref_patch (opt_PVC (pr_opts x))) (Inl e)"
  using assms(1)
proof (cases rule: proto_reach.cases)
  case (reach_step tr' ph' c)
  from reach_step(3) assms(2) reach_step(1) show ?thesis
    by (cases rule: proto_step.cases) (auto dest: waiting_progress)
qed

lemma volume_answered:
  assumes "proto_reach x tr ph" and "phase_volume ph = Some v"
  shows "\<exists>n. PatchPV n unclaim_patch (Inr v) \<in> set tr"
proof -
  have "\<exists>c. phase_claim ph = Some c" using assms(2) by (induction ph) auto
  with log_inv_reach [OF assms(1)] phase_volume_progress [OF assms(2)] assms(2)
  show ?thesis by (auto simp: log_inv_def)
qed

section \<open>The document of the user's claim\<close>

definition merge_body :: "(pvc \<Rightarrow> string) \<Rightarrow> json \<Rightarrow> patch_body \<Rightarrow> json" where
  "merge_body marshal d b =
     (case read_json (body_text marshal b) of Some p \<Rightarrow> merge d p | None \<Rightarrow> d)"

definition user_claim_after :: "(pvc \<Rightarrow> string) \<Rightarrow> ProvisionOptions \<Rightarrow> call list \<Rightarrow> json \<Rightarrow> json" where
  "user_claim_after marshal opts tr d = foldl (merge_body marshal) d (to_user opts tr)"

interpretation claim_view: object_view "user_claim_after marshal opts"
  "ClaimT (pvc_Namespace (opt_PVC opts)) (pvc_Name (opt_PVC opts))" for marshal opts
proof (unfold_locales, goal_cases)
  case (3 c s)
  then show ?case by (cases c) (auto simp: user_claim_after_def to_user_def split: sum.split)
qed (simp_all add: user_claim_after_def to_user_def split: call.split sum.split)

text \<open>
  A claim marked as bound to a volume of a class: the name of the volume, the two provisioner
  annotations, the two annotations of a completed binding, and nothing else but the creation time, which
  may be dropped.
\<close>

definition bonded :: "storage_class \<Rightarrow> string \<Rightarrow> json \<Rightarrow> json \<Rightarrow> bool" where
  "bonded sc vol d e \<longleftrightarrow>
     field_at e [''spec'', ''volumeName''] = Some (JString vol) \<and>
     field_at e [''metadata'', ''annotations'', ''volume.kubernetes.io/storage-provisioner''] = Some (JString (sc_Provisioner sc)) \<and>
     field_at e [''metadata'', ''annotations'', ''volume.beta.kubernetes.io/storage-provisioner''] = Some (JString (sc_Provisioner sc)) \<and>
     field_at e [''metadata'', ''annotations'', ''pv.kubernetes.io/bind-completed''] = Some (JString ''yes'') \<and>
     field_at e [''metadata'', ''annotations'', ''pv.kubernetes.io/bound-by-controller''] = Some (JString ''yes'') \<and>
     creation_kept d e \<and>
     unchanged_beside
       {[''metadata'', ''creationTimestamp''], [''spec'', ''volumeName''],
        [''metadata'', ''annotations'', ''volume.kubernetes.io/storage-provisioner''],
        [''metadata'', ''annotations'', ''volume.beta.kubernetes.io/storage-provisioner''],
        [''metadata'', ''annotations'', ''pv.kubernetes.io/bind-completed''],
        [''metadata'', ''annotations'', ''pv.kubernetes.io/bound-by-controller'']} d e"

lemma unescaped_bond_keys:
  "unescaped annStorageProvisioner" "unescaped annBetaStorageProvisioner"
  "unescaped AnnBindCompleted" "unescaped AnnBoundByController" "unescaped ''yes''"
  by code_simp+

text \<open>The part of it that holds on any document.\<close>

definition marked_bound :: "storage_class \<Rightarrow> string \<Rightarrow> json \<Rightarrow> bool" where
  "marked_bound sc vol e \<longleftrightarrow>
     field_at e [''spec'', ''volumeName''] = Some (JString vol) \<and>
     field_at e [''metadata'', ''annotations'', ''volume.kubernetes.io/storage-provisioner''] = Some (JString (sc_Provisioner sc)) \<and>
     field_at e [''metadata'', ''annotations'', ''pv.kubernetes.io/bind-completed''] = Some (JString ''yes'') \<and>
     field_at e [''metadata'', ''annotations'', ''pv.kubernetes.io/bound-by-controller''] = Some (JString ''yes'')"

lemma bond_keys_distinct:
  "AnnBindCompleted \<noteq> annStorageProvisioner" "AnnBindCompleted \<noteq> annBetaStorageProvisioner"
  "AnnBoundByController \<noteq> annStorageProvisioner" "AnnBoundByController \<noteq> annBetaStorageProvisioner"
  "AnnBoundByController \<noteq> AnnBindCompleted" "annStorageProvisioner \<noteq> annBetaStorageProvisioner"
  by code_simp+

lemma bond_patch_read:
  assumes "marshal_contract marshal" and "unescaped (sc_Provisioner sc)" and "unescaped vol"
  obtains c p where "bond_patch sc vol = Marshalled c" and "pvc_VolumeName c = vol"
    and "dom (pvc_Annotations c) = {annStorageProvisioner, annBetaStorageProvisioner, AnnBindCompleted, AnnBoundByController}"
    and "pvc_Annotations c annStorageProvisioner = Some (sc_Provisioner sc)"
    and "pvc_Annotations c annBetaStorageProvisioner = Some (sc_Provisioner sc)"
    and "pvc_Annotations c AnnBindCompleted = Some ''yes''" and "pvc_Annotations c AnnBoundByController = Some ''yes''"
    and "read_json (marshal c) = Some p" and "\<forall>d. claim_document d \<longrightarrow> patched_claim c d (merge d p)"
    and "\<forall>d. has_values c (merge d p)"
proof -
  let ?ann = "[annStorageProvisioner \<mapsto> sc_Provisioner sc, annBetaStorageProvisioner \<mapsto> sc_Provisioner sc,
      AnnBindCompleted \<mapsto> ''yes'', AnnBoundByController \<mapsto> ''yes'']"
  let ?c = "zero_pvc\<lparr>pvc_Annotations := ?ann, pvc_VolumeName := vol\<rparr>"
  have plain: "\<forall>k v. ?ann k = Some v \<longrightarrow> unescaped k \<and> unescaped v"
    using assms(2) unescaped_bond_keys by simp
  have "finite (dom ?ann)" by simp
  from marshalled_body [OF assms(1) this plain assms(3)] obtain p where
    "read_json (marshal ?c) = Some p" "\<forall>d. claim_document d \<longrightarrow> patched_claim ?c d (merge d p)"
    "\<forall>d. has_values ?c (merge d p)" by blast
  then show thesis
    by (intro that [of ?c])
      (auto simp: bond_patch_def bond_keys_distinct bond_keys_distinct [symmetric])
qed

lemmas bond_keys_folded =
  annStorageProvisioner_def [symmetric] annBetaStorageProvisioner_def [symmetric]
  AnnBindCompleted_def [symmetric] AnnBoundByController_def [symmetric]

lemma bond_step:
  assumes "marshal_contract marshal" and "unescaped (sc_Provisioner sc)" and "unescaped vol" "vol \<noteq> []"
    and "claim_document d"
  shows "bonded sc vol d (merge_body marshal d (bond_patch sc vol))"
  using bond_patch_read [OF assms(1-3)]
proof cases
  case (1 c p)
  with assms(4,5) show ?thesis
    unfolding bonded_def merge_body_def bond_keys_folded
    by (simp add: patched_claim_def claim_paths_def insert_commute del: field_at.simps merge.simps)
qed

lemma bond_values:
  assumes "marshal_contract marshal" and "unescaped (sc_Provisioner sc)" and "unescaped vol" "vol \<noteq> []"
  shows "marked_bound sc vol (merge_body marshal d (bond_patch sc vol))"
  using bond_patch_read [OF assms(1-3)]
proof cases
  case (1 c p)
  with assms(4) show ?thesis
    unfolding marked_bound_def merge_body_def bond_keys_folded
    by (simp add: has_values_def del: field_at.simps merge.simps)
qed

text \<open>The state of the claim after one run, by its result.\<close>

lemma run_bonds:
  assumes "marshal_contract marshal"
    and "\<forall>sc. chosen_class p opts = Some sc \<longrightarrow> unescaped (sc_Provisioner sc)"
    and "\<forall>n b x. PatchPV n b (Inr x) \<in> set (provision_calls p opts w) \<longrightarrow> unescaped (pv_Name x) \<and> pv_Name x \<noteq> []"
    and "claim_document d" and "chosen_class p opts = Some sc"
    and "proto_reach (protocol_of p opts sc n) (provision_calls p opts w) ph" and "phase_volume ph = Some v"
  shows "bonded sc (pv_Name v) d (merge_body marshal d (bond_patch sc (pv_Name v)))"
  using volume_answered [OF assms(6,7)] assms(2,3,5) by (intro bond_step assms(1,4)) auto

lemma run_claim_state:
  assumes "wf_provisioner p" and "backoff_contract (hp_client p)" and "marshal_contract marshal"
    and "honest (provision_calls p opts w)" and "opt_PVName opts \<noteq> pvc_Name (opt_PVC opts)"
    and "\<forall>sc. chosen_class p opts = Some sc \<longrightarrow> unescaped (sc_Provisioner sc)"
    and "\<forall>n b x. PatchPV n b (Inr x) \<in> set (provision_calls p opts w) \<longrightarrow> unescaped (pv_Name x) \<and> pv_Name x \<noteq> []"
    and "claim_document d"
  shows "case provision_returns p opts w of
       Provisioned (Some v) st err \<Rightarrow>
         (\<exists>sc. chosen_class p opts = Some sc \<and>
            bonded sc (pv_Name v) d (user_claim_after marshal opts (provision_calls p opts w) d))
     | _ \<Rightarrow>
         user_claim_after marshal opts (provision_calls p opts w) d = d \<or>
         (\<exists>sc vol e. chosen_class p opts = Some sc \<and> sc_ReclaimPolicy sc = Some ''Delete'' \<and>
            last (provision_calls p opts w) = PatchPV vol (claim_ref_patch (opt_PVC opts)) (Inl e) \<and>
            bonded sc vol d (user_claim_after marshal opts (provision_calls p opts w) d))"
  using assms(1,2)
proof (cases rule: Provision_ends [of p opts w])
  case idle
  then show ?thesis
    by (auto simp: user_claim_after_def to_user_def split: provision_result.split option.split)
next
  case (success sc n claim v)
  with run_bonds [OF assms(3,6-8) success(1,3), of v] show ?thesis
    using to_user_reach [OF success(3) assms(4)] assms(5)
    by (auto simp: user_claim_after_def split: if_splits)
next
  case (failure sc n ph err)
  let ?tr = "provision_calls p opts w" and ?x = "protocol_of p opts sc n"
  from to_user_reach [OF failure(3) assms(4)] assms(5)
  consider "to_user opts ?tr = []"
    | v where "phase_volume ph = Some v" "5 \<le> progress ph" "to_user opts ?tr = [bond_patch sc (pv_Name v)]" by auto
  then show ?thesis
  proof cases
    case 1
    with failure(5) show ?thesis by (simp add: user_claim_after_def)
  next
    case (2 v)
    with failure(4) obtain q where "ph = Stopped q" "5 \<le> progress q" by (auto simp: given_up_def)
    with stopped_bonded [of ?x ?tr q] failure run_bonds [OF assms(3,6-8) failure(1,3) 2(1)] 2 show ?thesis
      by (auto simp: user_claim_after_def deletes_volume_def PersistentVolumeReclaimDelete_def)
  qed
qed

section \<open>Properties\<close>


text \<open>A claim with an annotation and a finalizer of its own.\<close>

definition user_document :: json where
  "user_document = JObject
     [(''metadata'', JObject [(''annotations'', JObject [(''example.com/owner'', JString ''team-a'')]),
        (''finalizers'', JArray [JString ''kubernetes.io/pvc-protection''])]),
      (''spec'', JObject [(''resources'', JObject [(''requests'', JObject [(''storage'', JString ''1Gi'')])])]),
      (''status'', JObject [(''phase'', JString ''Pending'')])]"


end
