(* ===== verification/AttemptsClaim.thy ===== *)
theory AttemptsClaim
  imports Attempts ClaimState
begin

text \<open>
  The user's claim over the life of a request: what the attempts, whatever the caches were in each,
  have made of its document together.
\<close>

section \<open>One bonding after another\<close>

lemma unchanged_beside_trans:
  "unchanged_beside P d e \<Longrightarrow> unchanged_beside P e f \<Longrightarrow> unchanged_beside P d f"
  by (simp add: unchanged_beside_def)

lemma creation_kept_trans: "creation_kept d e \<Longrightarrow> creation_kept e f \<Longrightarrow> creation_kept d f"
  by (auto simp: creation_kept_def simp del: field_at.simps)

lemma bonded_trans: "bonded sc vol d e \<Longrightarrow> bonded sc' vol' e f \<Longrightarrow> bonded sc' vol' d f"
  unfolding bonded_def using unchanged_beside_trans creation_kept_trans by blast

lemma field_is_object: "field d k = Some v \<Longrightarrow> is_object d"
  by (cases d) (auto simp: field_def)

text \<open>A claim marked as bound is still the document of a claim.\<close>

lemma bonded_document:
  assumes "bonded sc vol d e" and "claim_document d"
  shows "claim_document e"
proof -
  from assms(1) have marks: "field_at e [''spec'', ''volumeName''] = Some (JString vol)"
    "field_at e [''metadata'', ''annotations'', ''pv.kubernetes.io/bind-completed''] = Some (JString ''yes'')"
    and same: "field_at e [''spec'', ''resources''] = field_at d [''spec'', ''resources'']"
      "field_at e [''status''] = field_at d [''status'']"
    by (auto simp: bonded_def unchanged_beside_def parallel_def simp del: field_at.simps)
  then have "is_object e" "is_object (below e ''spec'')" "is_object (below e ''metadata'')"
    by (auto simp: below_def split: option.splits dest: field_is_object)
  moreover have "below (below e ''spec'') ''resources'' = below (below d ''spec'') ''resources''"
    using same(1) by (auto simp: below_def field_def split: option.splits)
  moreover have "below e ''status'' = below d ''status''"
    using same(2) by (auto simp: below_def split: option.splits)
  ultimately show ?thesis using assms(2) by (simp add: claim_document_def)
qed

section \<open>The claim after some calls\<close>

text \<open>A claim as it was, or marked as bound to a volume that could not be handed over.\<close>

definition left_over :: "'e attempt list \<Rightarrow> call list \<Rightarrow> json \<Rightarrow> json \<Rightarrow> bool" where
  "left_over as tr d e \<longleftrightarrow> e = d \<or>
     (\<exists>a\<in>set as. \<exists>sc vol err. class_of a = Some sc \<and> sc_ReclaimPolicy sc = Some ''Delete'' \<and>
        PatchPV vol (claim_ref_patch (opt_PVC (at_options a))) (Inl err) \<in> set tr \<and> bonded sc vol d e)"

text \<open>What the last of some attempts has made of it, by its result.\<close>

definition claim_outcome ::
  "'e attempt list \<Rightarrow> 'e attempt \<Rightarrow> provision_result \<Rightarrow> call list \<Rightarrow> json \<Rightarrow> json \<Rightarrow> bool" where
  "claim_outcome as a r tr d e \<longleftrightarrow>
     (case r of
        Provisioned (Some v) st err \<Rightarrow> (\<exists>sc. class_of a = Some sc \<and> bonded sc (pv_Name v) d e)
      | _ \<Rightarrow> left_over as tr d e)"

lemma left_over_mono: "left_over as tr d e \<Longrightarrow> set as \<subseteq> set as' \<Longrightarrow> set tr \<subseteq> set tr' \<Longrightarrow> left_over as' tr' d e"
  unfolding left_over_def by blast

lemma left_over_trans:
  assumes "left_over as tr d e" and "left_over as tr e f"
  shows "left_over as tr d f"
proof (cases "f = e")
  case True
  with assms(1) show ?thesis by simp
next
  case False
  with assms(2) obtain a sc vol err where a: "a \<in> set as" "class_of a = Some sc" "sc_ReclaimPolicy sc = Some ''Delete''"
      "PatchPV vol (claim_ref_patch (opt_PVC (at_options a))) (Inl err) \<in> set tr" and ef: "bonded sc vol e f"
    unfolding left_over_def by blast
  from assms(1) have "e = d \<or> (\<exists>sc' vol'. bonded sc' vol' d e)" unfolding left_over_def by blast
  with ef have "bonded sc vol d f" by (auto intro: bonded_trans)
  with a show ?thesis unfolding left_over_def by blast
qed

lemma left_over_then:
  assumes "left_over [a] tr d e" and "claim_outcome as b r tr' e f"
  shows "claim_outcome (a # as) b r (tr @ tr') d f"
proof (cases "\<exists>v st err. r = Provisioned (Some v) st err")
  case True
  with assms show ?thesis unfolding claim_outcome_def left_over_def by auto (metis bonded_trans)
next
  case False
  then have result: "claim_outcome as' b' r tr'' d' e' \<longleftrightarrow> left_over as' tr'' d' e'" for as' b' tr'' d' e'
    unfolding claim_outcome_def by (auto split: provision_result.split option.split)
  have "left_over (a # as) (tr @ tr') d e" "left_over (a # as) (tr @ tr') e f"
    using assms unfolding result by (auto elim: left_over_mono)
  then show ?thesis unfolding result by (rule left_over_trans)
qed

lemma left_over_document: "left_over as tr d e \<Longrightarrow> claim_document d \<Longrightarrow> claim_document e"
  by (auto simp: left_over_def dest: bonded_document)

text \<open>The claim is found by its namespace and name only.\<close>

lemma same_request_claim: "same_request opts opts' \<Longrightarrow> user_claim_after marshal opts' = user_claim_after marshal opts"
  by (simp add: same_request_def user_claim_after_def to_user_def fun_eq_iff)

lemma run_claim_outcome:
  assumes "wf_provisioner (at_provisioner a)" and "backoff_contract (hp_client (at_provisioner a))" and "marshal_contract marshal"
    and "honest (made_calls a w)" and "opt_PVName (at_options a) \<noteq> pvc_Name (opt_PVC (at_options a))"
    and "\<forall>sc. class_of a = Some sc \<longrightarrow> unescaped (sc_Provisioner sc)"
    and "\<forall>n b x. PatchPV n b (Inr x) \<in> set (made_calls a w) \<longrightarrow> unescaped (pv_Name x) \<and> pv_Name x \<noteq> []"
    and "claim_document d"
  shows "claim_outcome [a] a (returned a w) (made_calls a w) d (user_claim_after marshal (at_options a) (made_calls a w) d)"
proof (cases "made_calls a w = []")
  case True
  then have "user_claim_after marshal (at_options a) (made_calls a w) d = d"
    by (simp add: user_claim_after_def to_user_def)
  with run_claim_state [OF assms] show ?thesis
    unfolding claim_outcome_def left_over_def by (auto split: provision_result.splits option.splits)
next
  case False
  from last_in_set [OF this] run_claim_state [OF assms] show ?thesis
    unfolding claim_outcome_def left_over_def by (auto split: provision_result.splits option.splits) (metis)+
qed

text \<open>What is asked of the strings the attempts write into the claim.\<close>

definition plain_attempts :: "'e attempt list \<Rightarrow> call list \<Rightarrow> bool" where
  "plain_attempts as tr \<longleftrightarrow>
     (\<forall>a\<in>set as. \<forall>sc. class_of a = Some sc \<longrightarrow> unescaped (sc_Provisioner sc)) \<and>
     (\<forall>n b x. PatchPV n b (Inr x) \<in> set tr \<longrightarrow> unescaped (pv_Name x) \<and> pv_Name x \<noteq> [])"

lemma plain_attempts_simps:
  "plain_attempts (a # as) (tr @ tr') \<Longrightarrow> plain_attempts [a] tr \<and> plain_attempts as tr'"
  by (simp add: plain_attempts_def)

lemma attempts_claims:
  assumes "at_request c opts as" and "marshal_contract marshal" and "opt_PVName opts \<noteq> pvc_Name (opt_PVC opts)"
    and "as \<noteq> []" and "honest (attempt_calls as w)" and "plain_attempts as (attempt_calls as w)" and "claim_document d"
  shows "claim_outcome as (last_attempt as w) (last (attempt_results as w)) (attempt_calls as w) d
     (user_claim_after marshal opts (attempt_calls as w) d)"
  using assms(1,4-7)
proof (induction as arbitrary: w d)
  case Nil
  then show ?case by simp
next
  case (Cons a as)
  let ?w = "next_world a w" and ?tr = "made_calls a w"
  let ?e = "user_claim_after marshal opts ?tr d"
  note log = attempt_calls_Cons [OF Cons.prems(1)]
  from Cons.prems(1) have a: "wf_provisioner (at_provisioner a)" "backoff_contract (hp_client (at_provisioner a))"
    and same: "same_request opts (at_options a)" by (auto simp: at_request_def)
  have "honest ?tr" "plain_attempts [a] ?tr"
    using Cons.prems(3,4) unfolding log by (auto dest: plain_attempts_simps)
  with run_claim_outcome [OF a assms(2)] same assms(3) Cons.prems(5)
  have run: "claim_outcome [a] a (returned a w) ?tr d ?e"
    unfolding same_request_claim [OF same, symmetric] by (auto simp: same_request_def plain_attempts_def)
  have alone: "claim_outcome (a # as) a (returned a w) ?tr d ?e"
    using run left_over_mono [of "[a]" ?tr d ?e "a # as" ?tr]
    by (auto simp: claim_outcome_def split: provision_result.splits option.splits)
  show ?case
  proof (cases "retriable (returned a w) \<and> as \<noteq> []")
    case False
    with alone show ?thesis unfolding log by auto
  next
    case True
    with run have first: "left_over [a] ?tr d ?e"
      by (auto simp: claim_outcome_def retriable_def split: provision_result.splits option.splits)
    have "claim_outcome as (last_attempt as ?w) (last (attempt_results as ?w)) (attempt_calls as ?w) ?e
        (user_claim_after marshal opts (attempt_calls as ?w) ?e)"
      using Cons.prems True left_over_document [OF first] unfolding log
      by (intro Cons.IH) (auto dest: plain_attempts_simps)
    from left_over_then [OF first this] True show ?thesis
      unfolding log by (simp add: claim_view.after_append)
  qed
qed

section \<open>Properties\<close>

text \<open>
  C7: the user's claim over any number of attempts, whatever the caches, the selected node and the
  chosen class were in each. Once the last attempt has returned a volume the
  claim is marked as bound to that volume of the class chosen in it. Otherwise it is as it was before the
  first attempt, but for one case: an attempt that failed in its very last call, handing a volume over,
  has left the claim marked as bound to that volume. Nothing else of its document has changed but the
  creation time, which the patches may drop, and a later attempt overwrites what an earlier one has left.
\<close>

theorem attempts_claim_state:
  assumes "at_request c opts as" and "marshal_contract marshal" and "opt_PVName opts \<noteq> pvc_Name (opt_PVC opts)"
    and "as \<noteq> []" and "honest (attempt_calls as w)" and "plain_attempts as (attempt_calls as w)" and "claim_document d"
  shows "case last (attempt_results as w) of
       Provisioned (Some v) st err \<Rightarrow>
         (\<exists>sc. class_of (last_attempt as w) = Some sc \<and>
            bonded sc (pv_Name v) d (user_claim_after marshal opts (attempt_calls as w) d))
     | _ \<Rightarrow>
         user_claim_after marshal opts (attempt_calls as w) d = d \<or>
         (\<exists>a\<in>set as. \<exists>sc vol e. class_of a = Some sc \<and> sc_ReclaimPolicy sc = Some ''Delete'' \<and>
            PatchPV vol (claim_ref_patch (opt_PVC (at_options a))) (Inl e) \<in> set (attempt_calls as w) \<and>
            bonded sc vol d (user_claim_after marshal opts (attempt_calls as w) d))"
  using attempts_claims [OF assms] unfolding claim_outcome_def left_over_def .

text \<open>The sample attempts whose first hand-over is refused.\<close>

lemma flaky_plain: "plain_attempts flaky_requests (refused_calls @ sample_calls)" "honest (refused_calls @ sample_calls)"
proof -
  have "unescaped (sc_Provisioner proxmox_class)" and "unescaped ''pv-1''" by code_simp+
  then show "plain_attempts flaky_requests (refused_calls @ sample_calls)"
    unfolding plain_attempts_def refused_calls_def sample_calls_def by (auto simp: sample_pv_def sample_chosen)
  show "honest (refused_calls @ sample_calls)"
    using sample_honest by (simp add: refused_calls_def sample_calls_def)
qed

theorem attempts_claim_state_witness:
  "field_at (user_claim_after sample_marshal sample_opts (refused_calls @ sample_calls) user_document) [''spec'', ''volumeName''] =
     Some (JString ''pv-1'')"
proof -
  have name: "opt_PVName sample_opts \<noteq> pvc_Name (opt_PVC sample_opts)" by (simp add: sample_opts_sel)
  have some: "flaky_requests \<noteq> []" by simp
  have doc: "claim_document user_document" by code_simp
  have "pv_Name released_pv = ''pv-1''" by (simp add: released_pv_def sample_pv_def)
  with attempts_claim_state [OF again_at_request [OF flaky_ok] sample_marshal_contract name some, of flaky_world user_document]
    flaky_plain doc
  show ?thesis unfolding flaky_attempts by (auto simp: bonded_def simp del: field_at.simps)
qed

end
