(* ===== verification/Workers.thy ===== *)
theory Workers
  imports AttemptsClaim
begin

text \<open>
  The controller at work: any number of requests, each with any number of attempts, by workers whose
  calls reach the API server in any order. A worker sees the others as part of its environment, which may
  be any, so its log is that of some run of its own. Each worker keeps to the objects of its request, and
  every volume and every user's claim ends as its own worker alone leaves it.
\<close>

section \<open>Requests\<close>

text \<open>A request, the attempts at it, and the world as its worker finds it.\<close>

record 'e job =
  job_client :: "'e client"
  job_options :: ProvisionOptions
  job_attempts :: "'e attempt list"
  job_world :: "'e world"

definition job_calls :: "'e job \<Rightarrow> call list" where
  "job_calls j = attempt_calls (job_attempts j) (job_world j)"

text \<open>Provisioners as \<^verbatim>\<open>NewProvisioner\<close> makes them, with libraries and a server that keep their contracts.\<close>

definition sound_job :: "'e job \<Rightarrow> bool" where
  "sound_job j \<longleftrightarrow> at_request (job_client j) (job_options j) (job_attempts j) \<and> honest (job_calls j)"

text \<open>Requests of different claims, whose backing claims are bound to different volumes.\<close>

definition apart :: "'e job \<Rightarrow> 'e job \<Rightarrow> bool" where
  "apart a b \<longleftrightarrow> own_objects (job_options a) \<inter> own_objects (job_options b) = {} \<and>
     bound_volumes (job_calls a) \<inter> bound_volumes (job_calls b) = {}"

section \<open>What a worker writes\<close>

lemma bound_volumes_Un [simp]: "bound_volumes (tr @ tr') = bound_volumes tr \<union> bound_volumes tr'"
  unfolding bound_volumes_def set_append by blast

lemma same_request_objects: "same_request opts opts' \<Longrightarrow> own_objects opts' = own_objects opts"
  by (simp add: same_request_def own_objects_def)

lemma attempts_writes:
  "at_request c opts as \<Longrightarrow> honest (attempt_calls as w) \<Longrightarrow>
     writes (attempt_calls as w) \<subseteq> own_objects opts \<union> VolumeT ` bound_volumes (attempt_calls as w)"
proof (induction as arbitrary: w)
  case (Cons a as)
  note log = attempt_calls_Cons [OF Cons.prems(1)]
  from Cons.prems(1) have "wf_provisioner (at_provisioner a)" "backoff_contract (hp_client (at_provisioner a))"
    "own_objects (at_options a) = own_objects opts" by (auto simp: at_request_def same_request_objects)
  with Cons.prems Cons.IH [of "next_world a w"] Provision_writes [of "at_provisioner a" "at_options a" w]
  show ?case unfolding log by (auto simp: image_Un split: if_splits)
qed simp

lemma job_writes: "sound_job j \<Longrightarrow> writes (job_calls j) \<subseteq> own_objects (job_options j) \<union> VolumeT ` bound_volumes (job_calls j)"
  unfolding sound_job_def job_calls_def by (blast dest: attempts_writes)

lemma apart_writes:
  assumes "sound_job a" and "sound_job b" and "apart a b"
  shows "writes (job_calls a) \<inter> writes (job_calls b) = {}"
proof -
  have "VolumeT n \<notin> own_objects opts" for n opts by (simp add: own_objects_def)
  with job_writes [OF assms(1)] job_writes [OF assms(2)] assms(3) show ?thesis unfolding apart_def by fast
qed

text \<open>No two of several workers write the same object.\<close>

lemma workers_writes:
  assumes "\<forall>j\<in>set js. sound_job j" and "sorted_wrt apart js" and "i < length js" "l < length js" "l \<noteq> i"
  shows "writes (job_calls (js ! i)) \<inter> writes (job_calls (js ! l)) = {}"
proof -
  have "apart (js ! i) (js ! l) \<or> apart (js ! l) (js ! i)"
    using assms(2-5) unfolding sorted_wrt_iff_nth_less by (meson linorder_neqE_nat)
  with apart_writes assms(1,3,4) show ?thesis by (metis inf_commute nth_mem)
qed

lemma workers_alone:
  assumes "object_view after target" and "\<forall>j\<in>set js. sound_job j" and "sorted_wrt apart js"
    and "tr \<in> merges (map job_calls js)" and "i < length js" and "target \<in> writes (job_calls (js ! i))"
  shows "after tr s = after (job_calls (js ! i)) s"
proof -
  have "\<forall>l<length (map job_calls js). l \<noteq> i \<longrightarrow> target \<notin> writes (map job_calls js ! l)"
    using workers_writes [OF assms(2,3,5)] assms(6) by auto
  with object_view.after_merges [OF assms(1,4), of i s] assms(5) show ?thesis by simp
qed

section \<open>Properties\<close>

text \<open>
  C8: the volumes of a busy cluster. Let any number of workers serve different requests, each with any
  number of attempts, and let their calls reach the API server in any order. As long as no two of the
  backing claims are bound to the same volume, every volume ends unharmed (as it was, retained, or
  retained and free), unless it is the volume with which the last attempt at a request has succeeded, for
  a class that reclaims by Delete, and then it is handed over to exactly the claim of that request.
\<close>

theorem workers_volume_state:
  assumes "\<forall>j\<in>set js. sound_job j \<and> (\<forall>a\<in>set (job_attempts j). plain_claim (opt_PVC (at_options a)))"
    and "sorted_wrt apart js" and "tr \<in> merges (map job_calls js)"
  shows "unharmed d (volume_after name tr d) \<or>
     (\<exists>j\<in>set js. won (job_attempts j) (job_world j) name \<and>
        handed_over (opt_PVC (at_options (last_attempt (job_attempts j) (job_world j)))) d (volume_after name tr d))"
proof (cases "\<exists>i<length js. VolumeT name \<in> writes (job_calls (js ! i))")
  case True
  then obtain i where i: "i < length js" "VolumeT name \<in> writes (job_calls (js ! i))" by blast
  let ?j = "js ! i"
  have j: "sound_job ?j" "\<forall>a\<in>set (job_attempts ?j). plain_claim (opt_PVC (at_options a))" using assms(1) i(1) by auto
  have alone: "volume_after name tr d = volume_after name (job_calls ?j) d"
    using workers_alone [OF volume_view.object_view_axioms _ assms(2,3) i] assms(1) by blast
  have "\<forall>n b x. PatchPV n b (Inr x) \<in> set (job_calls ?j) \<longrightarrow> pv_Name x = n"
    using j(1) by (fastforce simp: sound_job_def honest_def)
  with attempts_volumes [of "job_client ?j" "job_options ?j" "job_attempts ?j" "job_world ?j" name d] j nth_mem [OF i(1)]
  show ?thesis
    unfolding alone sound_job_def job_calls_def by (metis (no_types, lifting))
next
  case False
  then have "\<forall>j\<in>set js. VolumeT name \<notin> writes (job_calls j)" by (metis in_set_conv_nth)
  then have "VolumeT name \<notin> writes tr" using set_merges [OF assms(3)] by (auto simp: writes_def)
  then show ?thesis by (simp add: volume_view.after_others)
qed

text \<open>
  C9: the users' claims of a busy cluster. Under the same conditions every user's claim ends as its own
  attempts alone leave it: marked as bound to the volume its last attempt returned, and otherwise as it
  was or, after a refused hand-over, marked as bound to the volume that was refused.
\<close>

theorem workers_claim_state:
  assumes "\<forall>j\<in>set js. sound_job j" and "sorted_wrt apart js" and "tr \<in> merges (map job_calls js)"
    and "i < length js" and "job_attempts (js ! i) \<noteq> []"
    and "marshal_contract marshal" and "opt_PVName (job_options (js ! i)) \<noteq> pvc_Name (opt_PVC (job_options (js ! i)))"
    and "plain_attempts (job_attempts (js ! i)) (job_calls (js ! i))" and "claim_document d"
  shows "claim_outcome (job_attempts (js ! i)) (last_attempt (job_attempts (js ! i)) (job_world (js ! i)))
     (last (attempt_results (job_attempts (js ! i)) (job_world (js ! i)))) (job_calls (js ! i)) d
     (user_claim_after marshal (job_options (js ! i)) tr d)"
proof -
  let ?j = "js ! i"
  let ?key = "ClaimT (pvc_Namespace (opt_PVC (job_options ?j))) (pvc_Name (opt_PVC (job_options ?j)))"
  have j: "sound_job ?j" using assms(1,4) by simp
  have "?key \<notin> writes (job_calls (js ! l))" if "l < length js" "l \<noteq> i" for l
  proof -
    have "apart ?j (js ! l) \<or> apart (js ! l) ?j"
      using assms(2,4) that unfolding sorted_wrt_iff_nth_less by (meson linorder_neqE_nat)
    then have "?key \<notin> own_objects (job_options (js ! l))"
      unfolding apart_def by (auto simp: own_objects_def)
    with job_writes [of "js ! l"] assms(1) that(1) show ?thesis by auto
  qed
  then have alone: "user_claim_after marshal (job_options ?j) tr d = user_claim_after marshal (job_options ?j) (job_calls ?j) d"
    using claim_view.after_merges [OF assms(3), of i] assms(4) by simp
  from attempts_claims [of "job_client ?j" "job_options ?j" "job_attempts ?j" marshal "job_world ?j" d] j assms(5-9)
  show ?thesis unfolding alone by (simp add: sound_job_def job_calls_def)
qed

section \<open>Two requests\<close>

text \<open>
  The request that succeeds in its second attempt, and one whose backing claim the server refuses to
  create; its call comes between the two attempts.
\<close>

definition retried_job :: "bool job" where
  "retried_job = \<lparr>job_client = flaky_client, job_options = sample_opts, job_attempts = flaky_requests, job_world = flaky_world\<rparr>"

abbreviation full_requests :: "bool attempt list" where
  "full_requests \<equiv> again 1 (sample_provisioner full_client ''auto'') other_opts"

definition refused_job :: "bool job" where
  "refused_job = \<lparr>job_client = full_client, job_options = other_opts, job_attempts = full_requests, job_world = flaky_world\<rparr>"

abbreviation busy_jobs :: "bool job list" where
  "busy_jobs \<equiv> [retried_job, refused_job]"

definition busy_calls :: "call list" where
  "busy_calls = refused_calls @ other_calls @ sample_calls"

lemma full_request: "at_request full_client other_opts full_requests"
  using again_at_request [OF full_ok, of "''auto''" other_opts 1] by simp

lemma busy_job_calls [simp]:
  "job_calls retried_job = refused_calls @ sample_calls" "job_calls refused_job = other_calls"
  using flaky_attempts attempt_calls_Cons [of full_client other_opts "hd full_requests" "[]" flaky_world] full_request
  by (simp_all add: job_calls_def retried_job_def refused_job_def other_provision)

lemma busy_sound: "\<forall>j\<in>set busy_jobs. sound_job j"
proof -
  have "sound_job retried_job"
    using flaky_plain(2) again_at_request [OF flaky_ok, of sample_opts 2] unfolding sound_job_def busy_job_calls
    by (simp add: retried_job_def)
  moreover have "sound_job refused_job"
    using full_request other_objects(3) unfolding sound_job_def busy_job_calls by (simp add: refused_job_def)
  ultimately show ?thesis by simp
qed

lemma busy_apart: "sorted_wrt apart busy_jobs"
  using other_objects(1,2) by (simp add: apart_def) (simp add: retried_job_def refused_job_def)

lemma busy_merged: "busy_calls \<in> merges (map job_calls busy_jobs)"
proof -
  have prefix: "zs \<in> shuffles xs ys \<Longrightarrow> ws @ zs \<in> shuffles (ws @ xs) ys" for ws zs xs ys :: "call list"
    by (induction ws) (auto intro: Cons_in_shuffles_leftI)
  show ?thesis unfolding busy_calls_def by (simp add: prefix append_in_shuffles)
qed

theorem workers_volume_state_witness:
  "unharmed (JObject []) (volume_after ''pv-1'' busy_calls (JObject [])) \<or>
   handed_over user_claim (JObject []) (volume_after ''pv-1'' busy_calls (JObject []))"
proof -
  have "plain_claim (opt_PVC sample_opts)" "plain_claim (opt_PVC other_opts)"
    unfolding sample_opts_def other_opts_def by code_simp+
  then have jobs: "\<forall>j\<in>set busy_jobs. sound_job j \<and> (\<forall>a\<in>set (job_attempts j). plain_claim (opt_PVC (at_options a)))"
    using busy_sound by (simp add: retried_job_def refused_job_def)
  have "\<not> won full_requests flaky_world ''pv-1''"
    by (simp add: won_def other_provision)
  with workers_volume_state [OF jobs busy_apart busy_merged, of "JObject []" "''pv-1''"] flaky_last
  show ?thesis by (auto simp: retried_job_def refused_job_def sample_opts_sel)
qed

theorem workers_claim_state_witness:
  "field_at (user_claim_after sample_marshal sample_opts busy_calls user_document) [''spec'', ''volumeName''] =
     Some (JString ''pv-1'')"
proof -
  have first: "busy_jobs ! 0 = retried_job" "0 < length busy_jobs" by simp_all
  have job: "job_attempts retried_job = flaky_requests" "job_options retried_job = sample_opts" "job_world retried_job = flaky_world"
    by (simp_all add: retried_job_def)
  have some: "job_attempts (busy_jobs ! 0) \<noteq> []" by (simp add: job)
  have name: "opt_PVName (job_options (busy_jobs ! 0)) \<noteq> pvc_Name (opt_PVC (job_options (busy_jobs ! 0)))"
    by (simp add: job sample_opts_sel)
  have plain: "plain_attempts (job_attempts (busy_jobs ! 0)) (job_calls (busy_jobs ! 0))"
    using flaky_plain(1) unfolding first(1) busy_job_calls job by simp
  have doc: "claim_document user_document" by code_simp
  have "pv_Name released_pv = ''pv-1''" by (simp add: released_pv_def sample_pv_def)
  with workers_claim_state [OF busy_sound busy_apart busy_merged first(2) some sample_marshal_contract name plain doc]
  show ?thesis
    unfolding first(1) busy_job_calls job claim_outcome_def flaky_attempts by (auto simp: bonded_def simp del: field_at.simps)
qed

end
