(* ===== verification/Served.thy ===== *)
theory Served
  imports Safety
begin

text \<open>
  The environments a run passes through: \<open>served\<close> relates the environment before a log of calls with
  the one after it, call by call as the client answers. Every operation of the provisioner extends a
  served log, whichever way it ends, so what is proved of served logs by induction holds of the code.
\<close>

section \<open>Operations that keep an assertion\<close>

abbreviation keeps :: "('s \<Rightarrow> bool) \<Rightarrow> ('s, 'a) state \<Rightarrow> bool" where
  "keeps I m \<equiv> triple I m (\<lambda>_. I)"

named_theorems keeps_rules \<open>an assertion kept by the parts of an operation is kept by the operation\<close>

lemma keeps_return [keeps_rules]: "keeps I (State_Monad.return x)"
  by (rule triple_return)

lemma keeps_bind [keeps_rules]: "keeps I m \<Longrightarrow> (\<And>x. keeps I (f x)) \<Longrightarrow> keeps I (State_Monad.bind m f)"
  by (rule triple_bind)

lemma keeps_cases [keeps_rules]:
  "(\<And>e. keeps I (f e)) \<Longrightarrow> (\<And>x. keeps I (g x)) \<Longrightarrow> keeps I (case s of Inl e \<Rightarrow> f e | Inr x \<Rightarrow> g x)"
  "keeps I m \<Longrightarrow> (\<And>x. keeps I (h x)) \<Longrightarrow> keeps I (case r of None \<Rightarrow> m | Some x \<Rightarrow> h x)"
  "(\<And>x y. keeps I (k x y)) \<Longrightarrow> keeps I (case pr of (x, y) \<Rightarrow> k x y)"
  "(\<And>e. keeps I (a e)) \<Longrightarrow> (\<And>x. keeps I (b x)) \<Longrightarrow> keeps I (case t of Panic e \<Rightarrow> a e | Done x \<Rightarrow> b x)"
  "keeps I m \<Longrightarrow> keeps I n \<Longrightarrow> keeps I (if c then m else n)"
  by (simp_all split: sum.split option.split prod.split run.split)

lemma keeps_retry [keeps_rules]:
  assumes "keeps I cond"
  shows "keeps I (retry n cond)"
proof (rule triple_retry)
  show "triple I cond (\<lambda>r w. case r of Inl err \<Rightarrow> I w | Inr ok \<Rightarrow> if ok then I w else I w)"
    using assms by (rule triple_conseq) (auto split: sum.split)
qed

section \<open>Answers of a client\<close>

fun answered :: "'e client \<Rightarrow> 'e \<Rightarrow> call \<Rightarrow> 'e \<Rightarrow> bool" where
  "answered c e (ListerGetPVC ns name r) e' = (cl_ListerGetPVC c ns name e = (r, e'))"
| "answered c e (CreatePVC ns x r) e' = (cl_CreatePVC c ns x e = (r, e'))"
| "answered c e (GetPVC ns name r) e' = (cl_GetPVC c ns name e = (r, e'))"
| "answered c e (PatchPVC ns name b r) e' = (cl_PatchPVC c ns name b e = (r, e'))"
| "answered c e (DeletePVC ns name pol r) e' = (cl_DeletePVC c ns name pol e = (r, e'))"
| "answered c e (WatchPVC ns sel r) e' = (cl_WatchPVC c ns sel e = (r, e'))"
| "answered c e (GetPV name r) e' = (cl_GetPV c name e = (r, e'))"
| "answered c e (PatchPV name b r) e' = (cl_PatchPV c name b e = (r, e'))"
| "answered c e (WatchPV sel r) e' = (cl_WatchPV c sel e = (r, e'))"
| "answered c e (CreatePod ns q r) e' = (cl_CreatePod c ns q e = (r, e'))"
| "answered c e (DeletePod ns name r) e' = (cl_DeletePod c ns name e = (r, e'))"
| "answered c e (ListPods ns r) e' = (cl_ListPods c ns e = (r, e'))"
| "answered c e (GetNode name r) e' = (cl_GetNode c name e = (r, e'))"
| "answered c e (PatchNode name b r) e' = (cl_PatchNode c name b e = (r, e'))"
| "answered c e (ListCSINodes r) e' = (cl_ListCSINodes c e = (r, e'))"

inductive served :: "'e client \<Rightarrow> 'e \<Rightarrow> call list \<Rightarrow> 'e \<Rightarrow> bool" for c e where
  served_start: "served c e [] e"
| served_call: "served c e tr e1 \<Longrightarrow> answered c e1 x e2 \<Longrightarrow> served c e (tr @ [x]) e2"

inductive_simps served_Nil [simp]: "served c e [] e'"

lemma served_snoc: "served c e (tr @ [x]) e' \<longleftrightarrow> (\<exists>e1. served c e tr e1 \<and> answered c e1 x e')"
  by (auto elim: served.cases intro: served_call)

lemma served_append: "served c e (tr @ tr') e' \<longleftrightarrow> (\<exists>e1. served c e tr e1 \<and> served c e1 tr' e')"
  by (induction tr' arbitrary: e' rule: rev_induct) (auto simp: served_snoc append_assoc [symmetric] simp del: append_assoc)

text \<open>An environment a world can have after calls made since another world.\<close>

definition served_since :: "'e client \<Rightarrow> 'e world \<Rightarrow> 'e world \<Rightarrow> bool" where
  "served_since c w0 w \<longleftrightarrow> (\<exists>tr. calls w = calls w0 @ tr \<and> served c (env w0) tr (env w))"

lemma served_since_refl [simp]: "served_since c w w"
  by (simp add: served_since_def)

lemma served_since_trans: "served_since c w w1 \<Longrightarrow> served_since c w1 w2 \<Longrightarrow> served_since c w w2"
  unfolding served_since_def using served_append by fastforce

lemma served_perform:
  assumes "\<And>e. answered c e (k (fst (f e))) (snd (f e))"
  shows "keeps (served_since c w0) (perform f k)"
proof (rule tripleI)
  fix w r w'
  assume "served_since c w0 w" and run: "run_state (perform f k) w = (r, w')"
  then obtain tr where tr: "calls w = calls w0 @ tr" "served c (env w0) tr (env w)" by (auto simp: served_since_def)
  from run have "calls w' = calls w0 @ tr @ [k (fst (f (env w)))]" "env w' = snd (f (env w))" using tr(1) by auto
  with tr(2) assms [of "env w"] show "served_since c w0 w'"
    unfolding served_since_def by (auto intro: served_call)
qed

lemma served_calls [keeps_rules]:
  "keeps (served_since c w0) (lister_get_pvc c ns name)"
  "keeps (served_since c w0) (create_pvc c ns x)"
  "keeps (served_since c w0) (patch_pvc c ns name b)"
  "keeps (served_since c w0) (delete_pvc c ns name pol)"
  "keeps (served_since c w0) (watch_pvc c ns sel)"
  "keeps (served_since c w0) (patch_pv c name b)"
  "keeps (served_since c w0) (create_pod c ns q)"
  "keeps (served_since c w0) (delete_pod c ns name)"
  unfolding call_defs by (rule served_perform; simp)+

section \<open>The operations of the provisioner\<close>

lemma served_Provision:
  assumes "wf_provisioner p" and "backoff_contract (hp_client p)"
  shows "keeps (served_since (hp_client p) w0) (Provision p opts)"
proof -
  have release: "keeps (served_since (hp_client p) w0) (release_and_bond p opts sc claim)" for sc claim
    unfolding release_and_bond_def releasePV_def bondPVC_def try_delete_pvc_def backoff_five [OF assms]
    by (intro keeps_rules)
  show ?thesis
    unfolding Provision_def createPVbyAnnotation_def createPVbyPOD_def ensure_pvc_def waitBindPVC_def
      try_delete_pod_def Let_def backoff_five [OF assms]
    by (intro keeps_rules release)
qed

lemma Provision_served:
  assumes "wf_provisioner p" and "backoff_contract (hp_client p)" and "run_state (Provision p opts) w = (r, w')"
  shows "calls w' = calls w @ provision_calls p opts w"
    and "served (hp_client p) (env w) (provision_calls p opts w) (env w')"
proof -
  from tripleD [OF served_Provision [OF assms(1,2), of w] _ assms(3)]
  obtain tr where "calls w' = calls w @ tr" "served (hp_client p) (env w) tr (env w')"
    by (auto simp: served_since_def)
  moreover from this assms(3) have "provision_calls p opts w = tr" by (simp add: provision_calls_def)
  ultimately show "calls w' = calls w @ provision_calls p opts w"
    and "served (hp_client p) (env w) (provision_calls p opts w) (env w')" by simp_all
qed

end
