(* ===== verification/Survival.thy ===== *)
theory Survival
  imports Attempts Served MergePaths
begin

text \<open>
  No volume is lost: the API server may delete any volume whose reclaim policy is not \<^verbatim>\<open>Retain\<close> at any
  time, as the volume controller does once the claim of such a volume is gone. Whichever way a
  provisioning ends, after any number of attempts, the volumes it took hold of are still there.
\<close>

section \<open>What the API server does with volumes\<close>

text \<open>A volume the server does not delete by itself.\<close>

definition held :: "('e \<Rightarrow> string \<Rightarrow> json option) \<Rightarrow> 'e \<Rightarrow> string \<Rightarrow> bool" where
  "held vols e name \<longleftrightarrow> (\<exists>d. vols e name = Some d \<and> policy d = Some (JString ''Retain''))"

text \<open>
  A volume with policy \<^verbatim>\<open>Retain\<close> stays and keeps the policy, but for a patch of it; a patch answered
  without an error was merged into the document the volume then had. Everything else about the
  volumes may change in every call, by the server or by others.
\<close>

definition retain_respected :: "('e \<Rightarrow> string \<Rightarrow> json option) \<Rightarrow> 'e client \<Rightarrow> bool" where
  "retain_respected vols c \<longleftrightarrow>
     (\<forall>e x e' name. answered c e x e' \<longrightarrow> (\<forall>b v. x \<noteq> PatchPV name b (Inr v)) \<longrightarrow>
        held vols e name \<longrightarrow> held vols e' name) \<and>
     (\<forall>e name b v e'. cl_PatchPV c name b e = (Inr v, e') \<longrightarrow>
        (\<exists>d. vols e' name = Some (merge_text d b) \<and>
             (held vols e name \<longrightarrow> policy d = Some (JString ''Retain''))))"

text \<open>The claim a volume's reference names.\<close>

definition refers_to :: "pvc \<Rightarrow> json \<Rightarrow> bool" where
  "refers_to claim d \<longleftrightarrow>
     field_at d [''spec'', ''claimRef'', ''namespace''] = Some (JString (pvc_Namespace claim)) \<and>
     field_at d [''spec'', ''claimRef'', ''name''] = Some (JString (pvc_Name claim)) \<and>
     field_at d [''spec'', ''claimRef'', ''uid''] = Some (JString (pvc_UID claim))"

definition owned :: "('e \<Rightarrow> string \<Rightarrow> json option) \<Rightarrow> pvc \<Rightarrow> 'e \<Rightarrow> string \<Rightarrow> bool" where
  "owned vols claim e name \<longleftrightarrow>
     (\<exists>d. vols e name = Some d \<and> policy d = Some (JString ''Delete'') \<and> refers_to claim d)"

section \<open>The three patches\<close>

lemma retain_holds: "policy (merge_text d retain_patch) = Some (JString ''Retain'')"
  using retain_step [of d] by (simp add: retained_def)

lemma unclaim_holds: "policy (merge_text d unclaim_patch) = policy d"
  by (simp add: merge_text_def raw_unclaim field_at_merge below_def field_merge
      del: merge.simps split: option.split)

lemma claim_ref_owns:
  "plain_claim claim \<Longrightarrow> policy (merge_text d (claim_ref_patch claim)) = Some (JString ''Delete'') \<and>
     refers_to claim (merge_text d (claim_ref_patch claim))"
  by (simp add: merge_text_def raw_claim_ref refers_to_def field_at_merge field_merge reference_json_def
      del: merge.simps)
    (simp add: field_at_merge)

section \<open>One run\<close>

lemma reach_keeps:
  assumes "retain_respected vols c" and "plain_claim (opt_PVC (pr_opts x))"
  shows "proto_reach x tr ph \<Longrightarrow> served c e tr e' \<Longrightarrow> held vols e name \<or> name \<in> fst ` set (applied tr) \<Longrightarrow>
     held vols e' name \<or>
     (\<exists>claim v. ph = Settled claim v \<and> name = pv_Name v \<and> owned vols (opt_PVC (pr_opts x)) e' name)"
proof (induction arbitrary: e' name rule: proto_reach.induct)
  case reach_start
  then show ?case by simp
next
  case (reach_step tr ph k ph')
  then obtain e1 where e1: "served c e tr e1" "answered c e1 k e'" by (auto simp: served_snoc)
  have before: "held vols e1 n" if "held vols e n \<or> n \<in> fst ` set (applied tr)" for n
    using reach_step.IH [OF e1(1) that] reach_step.hyps(2) by (auto elim: step_from_Settled)
  show ?case
  proof (cases "\<exists>b v. k = PatchPV name b (Inr v)")
    case False
    then have "name \<in> fst ` set (applied (tr @ [k])) \<longleftrightarrow> name \<in> fst ` set (applied tr)"
      by (auto split: call.splits sum.splits)
    with reach_step.prems(2) before [of name] have "held vols e1 name" by blast
    with assms(1) e1(2) False show ?thesis unfolding retain_respected_def by blast
  next
    case True
    then obtain b v where k: "k = PatchPV name b (Inr v)" by blast
    with assms(1) e1(2) obtain d where d: "vols e' name = Some (merge_text d b)"
      and kept: "held vols e1 name \<Longrightarrow> policy d = Some (JString ''Retain'')"
      unfolding retain_respected_def by auto blast
    from reach_step.hyps(2) k consider
        (retain) "b = retain_patch"
      | (free) claim where "ph = ClaimGone claim" "name = pvc_VolumeName claim" "b = unclaim_patch"
      | (settle) claim u where "ph' = Settled claim u" "name = pv_Name u" "b = claim_ref_patch (opt_PVC (pr_opts x))"
      by (auto elim!: step_PatchPV)
    then show ?thesis
    proof cases
      case retain
      with d retain_holds show ?thesis by (simp add: held_def del: field_at.simps)
    next
      case free
      with applied_reach [OF reach_step.hyps(1)] have "held vols e1 name" by (intro before) auto
      with d kept free unclaim_holds show ?thesis by (simp add: held_def del: field_at.simps)
    next
      case settle
      with d claim_ref_owns [OF assms(2)] show ?thesis by (auto simp: owned_def simp del: field_at.simps)
    qed
  qed
qed

text \<open>The volume of a settled run is handed over by its last call.\<close>

lemma settled_owned:
  assumes "retain_respected vols c" and "plain_claim (opt_PVC (pr_opts x))"
    and "proto_reach x tr (Settled claim v)" and "served c e tr e'"
  shows "owned vols (opt_PVC (pr_opts x)) e' (pv_Name v)"
  using assms(3)
proof (cases rule: proto_reach.cases)
  case (reach_step tr' ph k)
  from reach_step(3) obtain u where k: "k = PatchPV (pv_Name v) (claim_ref_patch (opt_PVC (pr_opts x))) (Inr u)"
    by (cases rule: proto_step.cases) auto
  from assms(4) reach_step(1) obtain e1 where "answered c e1 k e'" by (auto simp: served_snoc)
  with assms(1) k obtain d where "vols e' (pv_Name v) = Some (merge_text d (claim_ref_patch (opt_PVC (pr_opts x))))"
    unfolding retain_respected_def by auto blast
  with claim_ref_owns [OF assms(2)] show ?thesis by (auto simp: owned_def simp del: field_at.simps)
qed

lemma run_keeps:
  assumes "wf_provisioner (at_provisioner a)" and "backoff_contract c" and "hp_client (at_provisioner a) = c"
    and "retain_respected vols c" and "plain_claim (opt_PVC (at_options a))"
    and "held vols (env w) name \<or> name \<in> fst ` set (applied (made_calls a w))"
  shows "held vols (env (next_world a w)) name \<or>
     owned vols (opt_PVC (at_options a)) (env (next_world a w)) name \<and>
     (\<exists>v st err sc. returned a w = Provisioned (Some v) st err \<and> name = pv_Name v \<and>
        class_of a = Some sc \<and> sc_ReclaimPolicy sc = Some ''Delete'')"
proof -
  let ?p = "at_provisioner a" and ?opts = "at_options a"
  obtain r w' where run: "run_state (Provision ?p ?opts) w = (r, w')" by (metis prod.exhaust)
  then have w': "next_world a w = w'" by (simp add: next_world_def)
  from assms(2,3) have backoff: "backoff_contract (hp_client ?p)" by simp
  note served = Provision_served(2) [OF assms(1) backoff run, unfolded assms(3)]
  from assms(1) backoff show ?thesis
  proof (cases rule: Provision_ends [of ?p ?opts w])
    case idle
    with served assms(6) w' show ?thesis by simp
  next
    case (failure sc n ph e)
    with reach_keeps [OF assms(4) _ failure(3) served assms(6)] assms(5) w' show ?thesis
      by (auto simp: given_up_def)
  next
    case (success sc n claim v)
    with reach_keeps [OF assms(4) _ success(3) served assms(6)] assms(5) w' show ?thesis
      by (auto simp: deletes_volume_def PersistentVolumeReclaimDelete_def split: if_splits)
  qed
qed

text \<open>The attempts one by one, from a volume that is held already or patched by one of them.\<close>

lemma attempts_keep:
  assumes "at_request c opts as" and "retain_respected vols c" and "\<forall>a\<in>set as. plain_claim (opt_PVC (at_options a))"
    and "held vols (env w) name \<or> name \<in> fst ` set (applied (attempt_calls as w))"
  shows "held vols (env (attempt_world as w)) name \<or>
     won as w name \<and> owned vols (opt_PVC (at_options (last_attempt as w))) (env (attempt_world as w)) name"
  using assms(1,3,4)
proof (induction as arbitrary: w)
  case Nil
  then show ?case by simp
next
  case (Cons a as)
  let ?w = "next_world a w"
  note log = attempt_calls_Cons [OF Cons.prems(1)]
  from Cons.prems have a: "wf_provisioner (at_provisioner a)" "backoff_contract c" "hp_client (at_provisioner a) = c"
    "plain_claim (opt_PVC (at_options a))" by (auto simp: at_request_def)
  note run = run_keeps [OF a(1-3) assms(2) a(4), where name = name and w = w]
  show ?case
  proof (cases "retriable (returned a w)")
    case False
    with Cons.prems(3) run show ?thesis unfolding log won_Cons by auto
  next
    case True
    with Cons.prems(3) run have "held vols (env ?w) name \<or> name \<in> fst ` set (applied (attempt_calls as ?w))"
      unfolding log by (auto dest: retriable_fails)
    from Cons.IH [OF _ _ this] Cons.prems(1,2) True show ?thesis by (auto simp: won_Cons dest: won_some)
  qed
qed

section \<open>The volumes at stake\<close>

text \<open>
  The volume of the claim a watch reports as bound, and the volumes at stake: those bound to their
  backing claim when its deletion is asked for, whatever the answer to that is.
\<close>

fun watched :: "string option \<Rightarrow> call \<Rightarrow> string option" where
  "watched vol (WatchPVC ns sel (Inr events)) =
     (case waitBind_loop sel events of Inl err \<Rightarrow> None | Inr claim \<Rightarrow> Some (pvc_VolumeName claim))"
| "watched vol c = vol"

fun at_stake :: "string option \<Rightarrow> call list \<Rightarrow> string set" where
  "at_stake vol [] = {}"
| "at_stake vol (c # tr) = (if asks_claim c then set_option vol else {}) \<union> at_stake (watched vol c) tr"

lemma at_stake_append: "at_stake vol (tr @ tr') = at_stake vol tr \<union> at_stake (foldl watched vol tr) tr'"
  by (induction tr arbitrary: vol) auto

lemma bound_any_name: "waitBind_loop name events = Inr claim \<Longrightarrow> waitBind_loop name' events = Inr claim"
  by (simp add: binding.loop_first)

lemma waiting_no_claim [simp]: "waiting x ph \<Longrightarrow> phase_claim ph = None"
  by (cases ph) auto

text \<open>After the wait the volume is that of the claim bound, whatever was watched before the run.\<close>

lemma watched_reach:
  "proto_reach x tr ph \<Longrightarrow> phase_claim ph = Some claim \<Longrightarrow> foldl watched vol tr = Some (pvc_VolumeName claim)"
proof (induction arbitrary: claim rule: proto_reach.induct)
  case reach_start
  then show ?case by simp
next
  case (reach_step tr ph c ph')
  from reach_step.hyps(2) reach_step show ?case
    by (cases rule: proto_step.cases) (auto dest: bound_any_name [where name' = "name_selector (wanted_name x)"])
qed

lemma stake_applied: "proto_reach x tr ph \<Longrightarrow> at_stake vol tr \<subseteq> fst ` set (applied tr)"
proof (induction rule: proto_reach.induct)
  case reach_start
  then show ?case by simp
next
  case (reach_step tr ph c ph')
  have "set_option (foldl watched vol tr) \<subseteq> fst ` set (applied tr)" if "asks_claim c"
  proof -
    from that obtain ns name pol r where "c = DeletePVC ns name pol r" by (cases c) auto
    with reach_step.hyps(2) obtain claim where "ph = Unprotected claim" by (auto elim: step_DeletePVC)
    with watched_reach [OF reach_step.hyps(1), of claim vol] applied_reach [OF reach_step.hyps(1)] show ?thesis by simp
  qed
  with reach_step.IH show ?case by (auto simp: at_stake_append)
qed

lemma run_stake:
  assumes "wf_provisioner p" and "backoff_contract (hp_client p)"
  shows "at_stake vol (provision_calls p opts w) \<subseteq> fst ` set (applied (provision_calls p opts w))"
  using assms by (cases rule: Provision_cases [of p opts w]) (simp, blast dest: stake_applied)

lemma attempts_stake:
  "at_request c opts as \<Longrightarrow> at_stake vol (attempt_calls as w) \<subseteq> fst ` set (applied (attempt_calls as w))"
proof (induction as arbitrary: w vol)
  case Nil
  then show ?case by simp
next
  case (Cons a as)
  note log = attempt_calls_Cons [OF Cons.prems]
  from Cons.prems have "at_stake vol (made_calls a w) \<subseteq> fst ` set (applied (made_calls a w))"
    by (intro run_stake) (auto simp: at_request_def)
  moreover from Cons have "at_stake (foldl watched vol (made_calls a w)) (attempt_calls as (next_world a w))
      \<subseteq> fst ` set (applied (attempt_calls as (next_world a w)))" by simp
  ultimately show ?case unfolding log by (auto simp: at_stake_append image_Un)
qed

section \<open>Properties\<close>

text \<open>
  C2: no volume is lost. The API server may delete volumes whose policy is not \<^verbatim>\<open>Retain\<close> in any call, for
  instance when their claim is deleted, and change all else about them. Nevertheless, after any number
  of attempts, however they end and whatever the caches were in each, every volume that was bound to its
  backing claim when the deletion of that claim was asked for, and every volume a patch went through to,
  is still there with policy \<^verbatim>\<open>Retain\<close>; but for the volume of the last attempt, if that succeeded for a
  class that reclaims by Delete, which is there as well, with policy \<^verbatim>\<open>Delete\<close> and a reference to the
  user's claim.
\<close>

theorem attempts_lose_no_volume:
  assumes "at_request c opts as" and "retain_respected vols c" and "\<forall>a\<in>set as. plain_claim (opt_PVC (at_options a))"
    and "name \<in> at_stake None (attempt_calls as w) \<union> fst ` set (applied (attempt_calls as w))"
  shows "held vols (env (attempt_world as w)) name \<or>
     won as w name \<and> owned vols (opt_PVC (at_options (last_attempt as w))) (env (attempt_world as w)) name"
  using attempts_keep [OF assms(1-3), where w = w and name = name] attempts_stake [OF assms(1), of None w] assms(4)
  by blast

section \<open>A server that deletes volumes\<close>

text \<open>The volumes as a map; a patch is merged into a document that is there.\<close>

definition store_patch ::
  "('k \<Rightarrow> json option) \<Rightarrow> 'k \<Rightarrow> (json \<Rightarrow> json) \<Rightarrow> 'a \<Rightarrow> (api_error + 'a) \<times> ('k \<Rightarrow> json option)" where
  "store_patch m k f x =
     (case m k of None \<Rightarrow> (Inl (NotFound ''no such object''), m) | Some d \<Rightarrow> (Inr x, m(k \<mapsto> f d)))"

text \<open>With the deletion of a claim this server deletes every volume that is not to be retained.\<close>

definition reclaim :: "(string \<Rightarrow> json option) \<Rightarrow> string \<Rightarrow> json option" where
  "reclaim vs name =
     (case vs name of None \<Rightarrow> None
      | Some d \<Rightarrow> if policy d = Some (JString ''Retain'') then Some d else None)"

definition reclaiming_client :: "(string \<Rightarrow> json option) client" where
  "reclaiming_client = calm_client
     \<lparr>cl_DeletePVC := (\<lambda>ns name pol vs. (None, reclaim vs)),
      cl_PatchPV := (\<lambda>name b vs. store_patch vs name (\<lambda>d. merge_text d b) sample_pv)\<rparr>"

abbreviation reclaiming_provisioner :: "(string \<Rightarrow> json option) HybridProvisioner" where
  "reclaiming_provisioner \<equiv> sample_provisioner reclaiming_client ''auto''"

text \<open>The volume is to be deleted with its claim at first.\<close>

definition doomed_volume :: json where
  "doomed_volume = JObject [(''spec'', JObject [(''persistentVolumeReclaimPolicy'', JString ''Delete'')])]"

definition doomed_world :: "(string \<Rightarrow> json option) world" where
  "doomed_world = \<lparr>env = [''pv-1'' \<mapsto> doomed_volume], calls = []\<rparr>"

lemma reclaiming_contract: "retain_respected (\<lambda>vs. vs) reclaiming_client"
proof -
  have "held (\<lambda>vs. vs) e' name"
    if "answered reclaiming_client e x e'" "\<forall>b v. x \<noteq> PatchPV name b (Inr v)" "held (\<lambda>vs. vs) e name" for e x e' name
    using that
    by (cases x) (auto simp: reclaiming_client_def calm_client_def held_def reclaim_def store_patch_def
        simp del: field_at.simps split: option.splits if_splits)
  then show ?thesis
    unfolding retain_respected_def
    by (auto simp: reclaiming_client_def calm_client_def held_def store_patch_def simp del: field_at.simps split: option.splits)
qed

lemma reclaiming_ok:
  "wf_provisioner reclaiming_provisioner" "backoff_contract (hp_client reclaiming_provisioner)"
  by (simp_all add: wf_sample_provisioner retry_contract reclaiming_client_def calm_client_def)

lemma reclaiming_client_backoff: "cl_ExponentialBackoff reclaiming_client = (\<lambda>b cond. retry (nat (bo_Steps b)) cond)"
  by (simp add: reclaiming_client_def calm_client_def)

lemma reclaiming_run:
  "\<exists>e. run_state (Provision reclaiming_provisioner sample_opts) doomed_world =
     (Provisioned (Some released_pv) ProvisioningFinished None, \<lparr>env = e, calls = sample_calls\<rparr>)"
  unfolding sample_unfolds
  by (simp add: sample_retry [OF reclaiming_client_backoff])
    (simp add: reclaiming_client_def calm_client_def doomed_world_def sample_values store_patch_def reclaim_def retain_holds
      del: field_at.simps)

abbreviation reclaiming_attempts :: "(string \<Rightarrow> json option) attempt list" where
  "reclaiming_attempts \<equiv> again 1 reclaiming_provisioner sample_opts"

theorem attempts_lose_no_volume_witness:
  "\<exists>d. env (attempt_world reclaiming_attempts doomed_world) ''pv-1'' = Some d"
proof -
  from reclaiming_run have log: "provision_calls reclaiming_provisioner sample_opts doomed_world = sample_calls"
    by (auto simp: provision_calls_def doomed_world_def)
  note request = again_at_request [OF reclaiming_ok, of sample_opts 1]
  have "attempt_calls reclaiming_attempts doomed_world = sample_calls"
    using attempt_calls_Cons [of reclaiming_client sample_opts "hd reclaiming_attempts" "[]"] request log by simp
  then have "''pv-1'' \<in> at_stake None (attempt_calls reclaiming_attempts doomed_world) \<union>
      fst ` set (applied (attempt_calls reclaiming_attempts doomed_world))"
    by (simp add: sample_calls_def sample_events_def sample_claim_def ClaimBound_def)
  moreover have "plain_claim (opt_PVC sample_opts)" unfolding sample_opts_def by code_simp
  then have "\<forall>a\<in>set reclaiming_attempts. plain_claim (opt_PVC (at_options a))" by simp
  moreover have "retain_respected (\<lambda>vs. vs) (hp_client reclaiming_provisioner)" by (simp add: reclaiming_contract)
  ultimately show ?thesis
    using attempts_lose_no_volume [OF request, of "\<lambda>vs. vs" "''pv-1''" doomed_world]
    unfolding held_def owned_def by blast
qed

end
