(* ===== verification/Cluster.thy ===== *)
theory Cluster
  imports ClaimState Survival
begin

text \<open>
  From the log to the cluster: when the API server does to its documents what the calls ask for, the
  documents it holds after a run of \<^verbatim>\<open>Provision\<close> are the ones the log describes, and a run that
  returns a volume ends with the volume and the user's claim naming each other.
\<close>

section \<open>What the API server does\<close>

text \<open>
  Two views of the environment: the documents of the volumes and of the claims, as far as nobody else
  writes them. A patch that is answered without an error was merged into an existing document
  (RFC 7386), one that fails changed nothing; deleting a claim or a pod touches no other document.
  Nothing is said of the calls up to the watch, during which other controllers make the volume.
\<close>

definition server_contract ::
  "(pvc \<Rightarrow> string) \<Rightarrow> ('e \<Rightarrow> string \<Rightarrow> json option) \<Rightarrow> ('e \<Rightarrow> string \<times> string \<Rightarrow> json option) \<Rightarrow> 'e client \<Rightarrow> bool" where
  "server_contract marshal vols claims c \<longleftrightarrow>
     (\<forall>name b e. let (r, e') = cl_PatchPV c name b e in
        claims e' = claims e \<and>
        (case r of Inl _ \<Rightarrow> vols e' = vols e
         | Inr _ \<Rightarrow> \<exists>d. vols e name = Some d \<and> vols e' = (vols e)(name \<mapsto> merge_text d b))) \<and>
     (\<forall>ns name b e. let (r, e') = cl_PatchPVC c ns name b e in
        vols e' = vols e \<and>
        (case r of Inl _ \<Rightarrow> claims e' = claims e
         | Inr _ \<Rightarrow> \<exists>d. claims e (ns, name) = Some d \<and> claims e' = (claims e)((ns, name) \<mapsto> merge_body marshal d b))) \<and>
     (\<forall>ns name pol e. let (r, e') = cl_DeletePVC c ns name pol e in
        vols e' = vols e \<and> (\<forall>k. k \<noteq> (ns, name) \<longrightarrow> claims e' k = claims e k)) \<and>
     (\<forall>ns name e. let (r, e') = cl_DeletePod c ns name e in vols e' = vols e \<and> claims e' = claims e)"

section \<open>Documents and the log\<close>

abbreviation user_key :: "ProvisionOptions \<Rightarrow> string \<times> string" where
  "user_key opts \<equiv> (pvc_Namespace (opt_PVC opts), pvc_Name (opt_PVC opts))"

definition deletes_user :: "ProvisionOptions \<Rightarrow> call list \<Rightarrow> bool" where
  "deletes_user opts tr \<longleftrightarrow> (\<exists>pol r. DeletePVC (fst (user_key opts)) (snd (user_key opts)) pol r \<in> set tr)"

text \<open>The documents at some earlier time, with the log's patches merged into them.\<close>

definition tracked ::
  "(pvc \<Rightarrow> string) \<Rightarrow> ('e \<Rightarrow> string \<Rightarrow> json option) \<Rightarrow> ('e \<Rightarrow> string \<times> string \<Rightarrow> json option) \<Rightarrow> ProvisionOptions \<Rightarrow>
   'e \<Rightarrow> call list \<Rightarrow> bool" where
  "tracked marshal vols claims opts e tr \<longleftrightarrow> (\<exists>dv dc.
     (\<forall>name. vols e name = map_option (volume_after name tr) (dv name)) \<and>
     (\<forall>x\<in>set (applied tr). dv (fst x) \<noteq> None) \<and>
     (\<not> deletes_user opts tr \<longrightarrow>
        claims e (user_key opts) = map_option (user_claim_after marshal opts tr) dc \<and>
        (to_user opts tr \<noteq> [] \<longrightarrow> dc \<noteq> None)))"

lemma tracked_start:
  "applied tr = [] \<Longrightarrow> applied_claims tr = [] \<Longrightarrow> tracked marshal vols claims opts e tr"
  unfolding tracked_def
proof (rule exI [where x = "vols e"], rule exI [where x = "claims e (user_key opts)"])
  assume "applied tr = []" and "applied_claims tr = []"
  then have "volume_after n tr = (\<lambda>d. d)" and "user_claim_after marshal opts tr = (\<lambda>d. d)" and "to_user opts tr = []" for n
    by (simp_all add: fun_eq_iff volume_after_def user_claim_after_def to_user_def)
  with \<open>applied tr = []\<close> show "(\<forall>name. vols e name = map_option (volume_after name tr) (vols e name)) \<and>
      (\<forall>x\<in>set (applied tr). vols e (fst x) \<noteq> None) \<and>
      (\<not> deletes_user opts tr \<longrightarrow>
        claims e (user_key opts) = map_option (user_claim_after marshal opts tr) (claims e (user_key opts)) \<and>
        (to_user opts tr \<noteq> [] \<longrightarrow> claims e (user_key opts) \<noteq> None))"
    by (simp add: option.map_ident)
qed

lemma volume_after_snoc:
  "volume_after n (tr @ [PatchPV m b (Inr x)]) d =
     (if n = m then merge_text (volume_after n tr d) b else volume_after n tr d)"
  by (simp add: volume_after_def)

lemma volume_after_snoc_other:
  "(\<And>m b x. c \<noteq> PatchPV m b (Inr x)) \<Longrightarrow> volume_after n (tr @ [c]) d = volume_after n tr d"
  by (cases c) (auto simp: volume_after_def split: sum.split)

lemma to_user_snoc:
  "to_user opts (tr @ [PatchPVC ns name b (Inr x)]) = to_user opts tr @ (if (ns, name) = user_key opts then [b] else [])"
  by (auto simp: to_user_def)

lemma to_user_snoc_other:
  "(\<And>ns name b x. c \<noteq> PatchPVC ns name b (Inr x)) \<Longrightarrow> to_user opts (tr @ [c]) = to_user opts tr"
  by (cases c) (auto simp: to_user_def split: sum.split)

lemma user_claim_after_cong:
  "to_user opts tr' = to_user opts tr \<Longrightarrow> user_claim_after marshal opts tr' = user_claim_after marshal opts tr"
  by (simp add: fun_eq_iff user_claim_after_def)

text \<open>Each of the four calls keeps the documents tracked.\<close>

lemma tracked_patch_pv:
  assumes "server_contract marshal vols claims c" and "tracked marshal vols claims opts e tr"
    and "cl_PatchPV c name b e = (r, e')"
  shows "tracked marshal vols claims opts e' (tr @ [PatchPV name b r])"
proof -
  from assms(1) have law: "let (r, e') = cl_PatchPV c name b e in claims e' = claims e \<and>
      (case r of Inl _ \<Rightarrow> vols e' = vols e
       | Inr _ \<Rightarrow> \<exists>d. vols e name = Some d \<and> vols e' = (vols e)(name \<mapsto> merge_text d b))"
    unfolding server_contract_def by blast
  from assms(2) obtain dv dc where t:
    "\<forall>n. vols e n = map_option (volume_after n tr) (dv n)" "\<forall>x\<in>set (applied tr). dv (fst x) \<noteq> None"
    "\<not> deletes_user opts tr \<longrightarrow> claims e (user_key opts) = map_option (user_claim_after marshal opts tr) dc \<and>
        (to_user opts tr \<noteq> [] \<longrightarrow> dc \<noteq> None)"
    unfolding tracked_def by blast
  have user: "to_user opts (tr @ [PatchPV name b r]) = to_user opts tr"
    "user_claim_after marshal opts (tr @ [PatchPV name b r]) = user_claim_after marshal opts tr"
    "deletes_user opts (tr @ [PatchPV name b r]) = deletes_user opts tr"
    by (simp_all add: fun_eq_iff user_claim_after_def to_user_snoc_other deletes_user_def)
  show ?thesis
  proof (cases r)
    case (Inl err)
    with law assms(3) have same: "vols e' = vols e" "claims e' = claims e" by auto
    have "volume_after n (tr @ [PatchPV name b r]) = volume_after n tr" for n
      using Inl by (simp add: fun_eq_iff volume_after_snoc_other)
    with t same user Inl show ?thesis
      unfolding tracked_def by (intro exI [of _ dv] exI [of _ dc]) simp
  next
    case (Inr x)
    with law assms(3) obtain d where d: "vols e name = Some d" "vols e' = (vols e)(name \<mapsto> merge_text d b)" "claims e' = claims e"
      by auto
    with t(1) obtain d0 where d0: "dv name = Some d0" "d = volume_after name tr d0" by auto
    have "vols e' n = map_option (volume_after n (tr @ [PatchPV name b r])) (dv n)" for n
      using d d0 t(1) Inr by (cases "dv n") (auto simp: volume_after_snoc)
    with t d d0 user Inr show ?thesis
      unfolding tracked_def by (intro exI [of _ dv] exI [of _ dc]) simp
  qed
qed

lemma tracked_patch_pvc:
  assumes "server_contract marshal vols claims c" and "tracked marshal vols claims opts e tr"
    and "cl_PatchPVC c ns name b e = (r, e')"
  shows "tracked marshal vols claims opts e' (tr @ [PatchPVC ns name b r])"
proof -
  from assms(1) have law: "let (r, e') = cl_PatchPVC c ns name b e in vols e' = vols e \<and>
      (case r of Inl _ \<Rightarrow> claims e' = claims e
       | Inr _ \<Rightarrow> \<exists>d. claims e (ns, name) = Some d \<and> claims e' = (claims e)((ns, name) \<mapsto> merge_body marshal d b))"
    unfolding server_contract_def by blast
  from assms(2) obtain dv dc where t:
    "\<forall>n. vols e n = map_option (volume_after n tr) (dv n)" "\<forall>x\<in>set (applied tr). dv (fst x) \<noteq> None"
    "\<not> deletes_user opts tr \<longrightarrow> claims e (user_key opts) = map_option (user_claim_after marshal opts tr) dc \<and>
        (to_user opts tr \<noteq> [] \<longrightarrow> dc \<noteq> None)"
    unfolding tracked_def by blast
  have vols: "volume_after n (tr @ [PatchPVC ns name b r]) = volume_after n tr" for n
    by (simp add: fun_eq_iff volume_after_snoc_other)
  have others: "deletes_user opts (tr @ [PatchPVC ns name b r]) = deletes_user opts tr"
    "applied (tr @ [PatchPVC ns name b r]) = applied tr" by (simp_all add: deletes_user_def)
  show ?thesis
  proof (cases r)
    case (Inl err)
    with law assms(3) have same: "vols e' = vols e" "claims e' = claims e" by auto
    have "to_user opts (tr @ [PatchPVC ns name b r]) = to_user opts tr"
      using Inl by (simp add: to_user_snoc_other)
    with t same vols others user_claim_after_cong [OF this] show ?thesis
      unfolding tracked_def by (intro exI [of _ dv] exI [of _ dc]) simp
  next
    case (Inr x)
    with law assms(3) obtain d where d: "claims e (ns, name) = Some d"
      "claims e' = (claims e)((ns, name) \<mapsto> merge_body marshal d b)" "vols e' = vols e" by auto
    have "claims e' (user_key opts) = map_option (user_claim_after marshal opts (tr @ [PatchPVC ns name b r])) dc \<and>
        (to_user opts (tr @ [PatchPVC ns name b r]) \<noteq> [] \<longrightarrow> dc \<noteq> None)" if "\<not> deletes_user opts tr"
    proof (cases "(ns, name) = user_key opts")
      case True
      with that t(3) d(1) obtain d0 where "dc = Some d0" "d = user_claim_after marshal opts tr d0" by auto
      with d(2) True Inr show ?thesis by (simp add: user_claim_after_def to_user_snoc)
    next
      case False
      then have "to_user opts (tr @ [PatchPVC ns name b r]) = to_user opts tr" using Inr by (auto simp: to_user_snoc)
      with that t(3) d(2) False user_claim_after_cong [OF this] show ?thesis by auto
    qed
    with t d vols others show ?thesis
      unfolding tracked_def by (intro exI [of _ dv] exI [of _ dc]) simp
  qed
qed

lemma tracked_delete_pvc:
  assumes "server_contract marshal vols claims c" and "tracked marshal vols claims opts e tr"
    and "cl_DeletePVC c ns name pol e = (r, e')"
  shows "tracked marshal vols claims opts e' (tr @ [DeletePVC ns name pol r])"
proof -
  from assms(1) have "let (r, e') = cl_DeletePVC c ns name pol e in
      vols e' = vols e \<and> (\<forall>k. k \<noteq> (ns, name) \<longrightarrow> claims e' k = claims e k)"
    unfolding server_contract_def by blast
  with assms(3) have law: "vols e' = vols e" "\<forall>k. k \<noteq> (ns, name) \<longrightarrow> claims e' k = claims e k" by auto
  from assms(2) obtain dv dc where t:
    "\<forall>n. vols e n = map_option (volume_after n tr) (dv n)" "\<forall>x\<in>set (applied tr). dv (fst x) \<noteq> None"
    "\<not> deletes_user opts tr \<longrightarrow> claims e (user_key opts) = map_option (user_claim_after marshal opts tr) dc \<and>
        (to_user opts tr \<noteq> [] \<longrightarrow> dc \<noteq> None)"
    unfolding tracked_def by blast
  have same: "volume_after n (tr @ [DeletePVC ns name pol r]) = volume_after n tr"
    "to_user opts (tr @ [DeletePVC ns name pol r]) = to_user opts tr" "applied (tr @ [DeletePVC ns name pol r]) = applied tr" for n
    by (simp_all add: fun_eq_iff volume_after_snoc_other to_user_snoc_other)
  have "claims e' (user_key opts) = claims e (user_key opts) \<and> \<not> deletes_user opts tr"
    if "\<not> deletes_user opts (tr @ [DeletePVC ns name pol r])"
    using that law(2) by (auto simp: deletes_user_def)
  with t law(1) same user_claim_after_cong [OF same(2)] show ?thesis
    unfolding tracked_def by (intro exI [of _ dv] exI [of _ dc]) simp
qed

lemma tracked_delete_pod:
  assumes "server_contract marshal vols claims c" and "tracked marshal vols claims opts e tr"
    and "cl_DeletePod c ns name e = (r, e')"
  shows "tracked marshal vols claims opts e' (tr @ [DeletePod ns name r])"
proof -
  from assms(1) have "let (r, e') = cl_DeletePod c ns name e in vols e' = vols e \<and> claims e' = claims e"
    unfolding server_contract_def by blast
  with assms(3) have law: "vols e' = vols e" "claims e' = claims e" by auto
  have same: "volume_after n (tr @ [DeletePod ns name r]) = volume_after n tr"
    "to_user opts (tr @ [DeletePod ns name r]) = to_user opts tr" "applied (tr @ [DeletePod ns name r]) = applied tr"
    "deletes_user opts (tr @ [DeletePod ns name r]) = deletes_user opts tr" for n
    by (simp_all add: fun_eq_iff volume_after_snoc_other to_user_snoc_other deletes_user_def)
  with assms(2) law user_claim_after_cong [OF same(2)] show ?thesis unfolding tracked_def by simp
qed

section \<open>The documents after a run\<close>

text \<open>Before the claim is bound nothing is patched; afterwards only the four calls above are made.\<close>

lemma harmless_step: "proto_step x ph k ph' \<Longrightarrow> harmless k \<Longrightarrow> phase_applied x ph = [] \<and> phase_claims x ph = []"
  by (cases rule: proto_step.cases) auto

lemma reach_tracked:
  assumes "server_contract marshal vols claims c"
  shows "proto_reach x tr ph \<Longrightarrow> served c e tr e' \<Longrightarrow> tracked marshal vols claims opts e' tr"
proof (induction arbitrary: e' rule: proto_reach.induct)
  case reach_start
  then show ?case by (simp add: tracked_start)
next
  case (reach_step tr ph k ph')
  then obtain e1 where before: "tracked marshal vols claims opts e1 tr" and k: "answered c e1 k e'"
    by (auto simp: served_snoc)
  note rules = tracked_patch_pv tracked_patch_pvc tracked_delete_pvc tracked_delete_pod
  show ?case
  proof (cases "harmless k")
    case True
    with reach_step.hyps(2) have "applied tr = []" "applied_claims tr = []"
      unfolding applied_reach [OF reach_step.hyps(1)] claims_reach [OF reach_step.hyps(1)]
      by (simp_all add: harmless_step)
    with True show ?thesis by (intro tracked_start) (cases k; simp)+
  next
    case False
    with k rules [OF assms before] show ?thesis by (cases k) auto
  qed
qed

lemma deleted_claim_name:
  assumes "proto_reach x tr ph" and "honest tr" and "DeletePVC ns name pol r \<in> set tr"
  shows "name = opt_PVName (pr_opts x)"
proof -
  from assms(3) obtain a b where tr: "tr = a @ DeletePVC ns name pol r # b" by (meson split_list)
  with reach_split [of x a "DeletePVC ns name pol r" b ph] assms(1) obtain ph1 ph2
    where reach: "proto_reach x a ph1" and "proto_step x ph1 (DeletePVC ns name pol r) ph2" by auto
  then obtain claim where "ph1 = Unprotected claim" "name = pvc_Name claim" by (elim step_DeletePVC) auto
  moreover have "honest a" using assms(2) tr by simp
  ultimately show ?thesis using phase_claim_honest [OF reach] by (simp add: wanted_name_def)
qed

section \<open>Properties\<close>

text \<open>
  C3: a provisioning that succeeds leaves the cluster bound. If the API server does to its documents
  what the calls ask for, then after a run of \<^verbatim>\<open>Provision\<close> that returns a volume both documents exist:
  the user's claim names the volume and is marked as bound to it, and the volume refers to exactly
  the user's claim with policy \<^verbatim>\<open>Delete\<close>, if that is how the class reclaims, and otherwise is free with
  policy \<^verbatim>\<open>Retain\<close>.
\<close>

theorem Provision_binds:
  assumes "wf_provisioner p" and "backoff_contract (hp_client p)" and "server_contract marshal vols claims (hp_client p)"
    and "marshal_contract marshal" and "plain_claim (opt_PVC opts)"
    and "honest (provision_calls p opts w)" and "opt_PVName opts \<noteq> pvc_Name (opt_PVC opts)"
    and "\<forall>sc. chosen_class p opts = Some sc \<longrightarrow> unescaped (sc_Provisioner sc)"
    and "\<forall>n b x. PatchPV n b (Inr x) \<in> set (provision_calls p opts w) \<longrightarrow> unescaped (pv_Name x) \<and> pv_Name x \<noteq> []"
    and "run_state (Provision p opts) w = (Provisioned (Some v) st err, w')"
  shows "\<exists>sc volume claim. chosen_class p opts = Some sc \<and>
     vols (env w') (pv_Name v) = Some volume \<and>
     claims (env w') (pvc_Namespace (opt_PVC opts), pvc_Name (opt_PVC opts)) = Some claim \<and>
     marked_bound sc (pv_Name v) claim \<and>
     (if sc_ReclaimPolicy sc = Some ''Delete''
      then policy volume = Some (JString ''Delete'') \<and> reference volume = Some (JObject (reference_json (opt_PVC opts)))
      else policy volume = Some (JString ''Retain'') \<and> reference volume = None)"
proof -
  let ?tr = "provision_calls p opts w"
  have ret: "provision_returns p opts w = Provisioned (Some v) st err" using assms(10) by (simp add: provision_returns_def)
  have names: "\<forall>n b x. PatchPV n b (Inr x) \<in> set ?tr \<longrightarrow> pv_Name x = n"
    using assms(6) by (fastforce simp: honest_def)
  from assms(1,2) ret show ?thesis
  proof (rule Provision_won)
    fix sc n claim v0
    assume sc: "chosen_class p opts = Some sc" and v: "pv_Name v0 = pv_Name v"
      and reach: "proto_reach (protocol_of p opts sc n) ?tr (final_phase (protocol_of p opts sc n) claim v0)"
    from final_phase_freed [OF reach] names v assms(9)
    have vol: "pvc_VolumeName claim = pv_Name v" and plain: "unescaped (pv_Name v)" "pv_Name v \<noteq> []" by metis+
    have touched: "(pv_Name v, retain_patch) \<in> set (applied ?tr)"
      using applied_reach [OF reach] vol by (auto split: if_splits)
    have kept: "\<not> deletes_user opts ?tr"
      using deleted_claim_name [OF reach assms(6)] assms(7) by (auto simp: deletes_user_def)
    have user: "to_user opts ?tr = [bond_patch sc (pv_Name v)]"
      using to_user_reach [OF reach assms(6)] assms(7) v by (auto split: if_splits)
    from reach_tracked [OF assms(3) reach Provision_served(2) [OF assms(1,2,10)]] obtain d c where
      d: "vols (env w') (pv_Name v) = Some (volume_after (pv_Name v) ?tr d)" and
      c: "claims (env w') (user_key opts) = Some (user_claim_after marshal opts ?tr c)"
      using touched kept user unfolding tracked_def by fastforce
    have "marked_bound sc (pv_Name v) (user_claim_after marshal opts ?tr c)"
      using bond_values [OF assms(4) _ plain] assms(8) sc user by (simp add: user_claim_after_def)
    moreover from run_volume_state [OF assms(1,2,5) names, where name = "pv_Name v" and d = d] sc
    have "if sc_ReclaimPolicy sc = Some ''Delete'' then handed_over (opt_PVC opts) d (volume_after (pv_Name v) ?tr d)
        else freed d (volume_after (pv_Name v) ?tr d)"
      unfolding ret by (auto simp: Let_def)
    ultimately show ?thesis
      using sc d c
      by (intro exI [where x = sc] exI [where x = "volume_after (pv_Name v) ?tr d"]
          exI [where x = "user_claim_after marshal opts ?tr c"])
        (auto simp: handed_over_def freed_def simp del: field_at.simps split: if_splits)
  qed
qed

text \<open>An API server with one volume and two claims; its answers are those of the sample client.\<close>

type_synonym documents = "(string \<Rightarrow> json option) \<times> (string \<times> string \<Rightarrow> json option)"

definition store_client :: "documents client" where
  "store_client = calm_client
     \<lparr>cl_PatchPVC := (\<lambda>ns name b e. map_prod id (Pair (fst e))
        (store_patch (snd e) (ns, name) (\<lambda>d. merge_body sample_marshal d b) sample_claim)),
      cl_DeletePVC := (\<lambda>ns name pol e. (None, (fst e, (snd e)((ns, name) := None)))),
      cl_PatchPV := (\<lambda>name b e. map_prod id (\<lambda>vs. (vs, snd e))
        (store_patch (fst e) name (\<lambda>d. merge_text d b) sample_pv))\<rparr>"

definition store_world :: "documents world" where
  "store_world = \<lparr>env = ([''pv-1'' \<mapsto> JObject []],
       [(''default'', ''pvc-1'') \<mapsto> JObject [], (''default'', ''storage-test-0'') \<mapsto> user_document]), calls = []\<rparr>"

lemma store_contract: "server_contract sample_marshal fst snd store_client"
  by (auto simp: server_contract_def store_client_def calm_client_def store_patch_def split: option.split)

lemma store_ok:
  "wf_provisioner (sample_provisioner store_client m)"
  "backoff_contract (hp_client (sample_provisioner store_client m))"
  by (simp_all add: wf_sample_provisioner retry_contract store_client_def calm_client_def)

abbreviation store_provisioner :: "documents HybridProvisioner" where
  "store_provisioner \<equiv> sample_provisioner store_client ''auto''"

lemma store_client_backoff: "cl_ExponentialBackoff store_client = (\<lambda>b cond. retry (nat (bo_Steps b)) cond)"
  by (simp add: store_client_def calm_client_def)

lemma store_run:
  "\<exists>e. run_state (Provision store_provisioner sample_opts) store_world =
     (Provisioned (Some released_pv) ProvisioningFinished None, \<lparr>env = e, calls = sample_calls\<rparr>)"
  unfolding sample_unfolds
  by (simp add: sample_retry [OF store_client_backoff])
    (simp add: store_client_def calm_client_def store_world_def sample_values store_patch_def)

theorem Provision_binds_witness:
  "\<exists>w' volume claim. run_state (Provision store_provisioner sample_opts) store_world =
       (Provisioned (Some released_pv) ProvisioningFinished None, w') \<and>
     fst (env w') ''pv-1'' = Some volume \<and> reference volume = Some (JObject (reference_json user_claim)) \<and>
     snd (env w') (''default'', ''storage-test-0'') = Some claim \<and>
     field_at claim [''spec'', ''volumeName''] = Some (JString ''pv-1'')"
proof -
  from store_run obtain e where
    run: "run_state (Provision store_provisioner sample_opts) store_world =
      (Provisioned (Some released_pv) ProvisioningFinished None, \<lparr>env = e, calls = sample_calls\<rparr>)" by blast
  then have log: "provision_calls store_provisioner sample_opts store_world = sample_calls"
    by (simp add: provision_calls_def store_world_def)
  have opts: "opt_PVC sample_opts = user_claim" "pvc_Namespace user_claim = ''default''" "pvc_Name user_claim = ''storage-test-0''"
    "opt_PVName sample_opts = ''pvc-1''"
    by (simp_all add: sample_opts_def user_claim_def)
  have contract: "server_contract sample_marshal fst snd (hp_client store_provisioner)"
    by (simp add: store_contract)
  have plain: "plain_claim (opt_PVC sample_opts)" unfolding opts by code_simp
  have honest: "honest (provision_calls store_provisioner sample_opts store_world)"
    unfolding log by (rule sample_honest)
  have name: "opt_PVName sample_opts \<noteq> pvc_Name (opt_PVC sample_opts)" by (simp add: opts)
  have "unescaped (sc_Provisioner proxmox_class)" by code_simp
  then have driver: "\<forall>sc. chosen_class store_provisioner sample_opts = Some sc \<longrightarrow> unescaped (sc_Provisioner sc)"
    unfolding sample_chosen by simp
  have "unescaped ''pv-1''" by code_simp
  then have vols: "\<forall>n b x. PatchPV n b (Inr x) \<in> set (provision_calls store_provisioner sample_opts store_world) \<longrightarrow>
      unescaped (pv_Name x) \<and> pv_Name x \<noteq> []"
    unfolding log sample_calls_def by (auto simp: sample_pv_def)
  have pv: "pv_Name released_pv = ''pv-1''" by (simp add: released_pv_def sample_pv_def)
  have reclaim: "sc_ReclaimPolicy proxmox_class = Some ''Delete''"
    by (simp add: proxmox_class_def PersistentVolumeReclaimDelete_def)
  from Provision_binds [OF store_ok contract sample_marshal_contract plain honest name driver vols run] reclaim run
  show ?thesis
    unfolding opts pv sample_chosen by (auto simp: marked_bound_def simp del: field_at.simps)
qed

end
