(* ===== verification/Bound.thy ===== *)
theory Bound
  imports Cluster
begin

text \<open>
  A successful provisioning among others: the volume controller, the scheduler and other users may
  change volumes and claims while \<^verbatim>\<open>Provision\<close> runs. What they leave alone is enough for the claim to
  end up bound to a volume that is there.
\<close>

section \<open>What the API server does with claims\<close>

definition marked_at ::
  "('e \<Rightarrow> string \<times> string \<Rightarrow> json option) \<Rightarrow> storage_class \<Rightarrow> string \<Rightarrow> string \<times> string \<Rightarrow> 'e \<Rightarrow> bool" where
  "marked_at claims sc vol key e \<longleftrightarrow> (\<exists>d. claims e key = Some d \<and> marked_bound sc vol d)"

text \<open>
  A claim marked as bound stays so, but for patches and deletions of it through this client: the volume
  name of a claim cannot be changed once it is set. A patch answered without an error was merged into
  the document the claim then had.
\<close>

definition binding_respected ::
  "(pvc \<Rightarrow> string) \<Rightarrow> ('e \<Rightarrow> string \<times> string \<Rightarrow> json option) \<Rightarrow> 'e client \<Rightarrow> bool" where
  "binding_respected marshal claims c \<longleftrightarrow>
     (\<forall>e x e' ns name sc vol. answered c e x e' \<longrightarrow> ClaimT ns name \<notin> call_writes x \<longrightarrow>
        marked_at claims sc vol (ns, name) e \<longrightarrow> marked_at claims sc vol (ns, name) e') \<and>
     (\<forall>e ns name b r e'. cl_PatchPVC c ns name b e = (Inr r, e') \<longrightarrow>
        (\<exists>d. claims e' (ns, name) = Some (merge_body marshal d b)))"

section \<open>The claim in a phase\<close>

lemma reach_marks:
  assumes "binding_respected marshal claims c" and "marshal_contract marshal"
    and "unescaped (sc_Provisioner (pr_class x))"
  shows "proto_reach x tr ph \<Longrightarrow> served c e tr e' \<Longrightarrow>
     \<forall>n b y. PatchPV n b (Inr y) \<in> set tr \<longrightarrow> unescaped (pv_Name y) \<and> pv_Name y \<noteq> [] \<Longrightarrow>
     5 \<le> progress ph \<Longrightarrow> phase_volume ph = Some v \<Longrightarrow>
     marked_at claims (pr_class x) (pv_Name v) (wanted_ns x, pvc_Name (opt_PVC (pr_opts x))) e'"
proof (induction arbitrary: e' v rule: proto_reach.induct)
  case reach_start
  then show ?case by simp
next
  case (reach_step tr ph k ph')
  then obtain e1 where e1: "served c e tr e1" "answered c e1 k e'" by (auto simp: served_snoc)
  let ?key = "(wanted_ns x, pvc_Name (opt_PVC (pr_opts x)))"
  from reach_step.hyps(2) reach_step.prems(3,4) consider
      (bond) claim y where "ph = Freed claim v"
        "k = PatchPVC (wanted_ns x) (pvc_Name (opt_PVC (pr_opts x))) (bond_patch (pr_class x) (pv_Name v)) (Inr y)"
    | (settle) claim n b r where "ph = Bonded claim v" "k = PatchPV n b r"
    by (cases rule: proto_step.cases) (auto dest: waiting_progress)
  then show ?case
  proof cases
    case bond
    from volume_answered [OF reach_step.hyps(1)] bond(1) obtain n where "PatchPV n unclaim_patch (Inr v) \<in> set tr" by auto
    with reach_step.prems(2) have plain: "unescaped (pv_Name v)" "pv_Name v \<noteq> []" by auto
    from assms(1) e1(2) bond(2) obtain d where
      "claims e' ?key = Some (merge_body marshal d (bond_patch (pr_class x) (pv_Name v)))"
      unfolding binding_respected_def by auto blast
    with bond_values [OF assms(2,3) plain] show ?thesis by (auto simp: marked_at_def)
  next
    case settle
    with reach_step.IH [OF e1(1), of v] reach_step.prems(2)
    have "marked_at claims (pr_class x) (pv_Name v) ?key e1" by simp
    with assms(1) e1(2) settle(2) show ?thesis unfolding binding_respected_def by (metis call_writes.simps(4) empty_iff singletonD target.distinct(1))
  qed
qed

section \<open>The sample server\<close>

text \<open>The server with documents keeps retained volumes and bound claims, since nobody else writes to it.\<close>

lemma store_retains: "retain_respected fst store_client"
proof -
  have "held fst e' name"
    if "answered store_client e x e'" "\<forall>b v. x \<noteq> PatchPV name b (Inr v)" "held fst e name" for e x e' name
    using that
    by (cases x) (auto simp: store_client_def calm_client_def held_def store_patch_def simp del: field_at.simps split: option.splits)
  then show ?thesis
    unfolding retain_respected_def
    by (auto simp: store_client_def calm_client_def held_def store_patch_def simp del: field_at.simps split: option.splits)
qed

lemma store_keeps_bindings: "binding_respected sample_marshal snd store_client"
proof -
  have "marked_at snd sc vol (ns, name) e'"
    if "answered store_client e x e'" "ClaimT ns name \<notin> call_writes x" "marked_at snd sc vol (ns, name) e" for e x e' ns name sc vol
    using that
    by (cases x) (auto simp: store_client_def calm_client_def marked_at_def store_patch_def split: option.splits)
  then show ?thesis
    unfolding binding_respected_def
    by (auto simp: store_client_def calm_client_def store_patch_def split: option.splits)
qed

section \<open>Properties\<close>

text \<open>
  C4: a provisioning that succeeds binds the claim, whatever others do meanwhile. If the server keeps
  retained volumes and bound claims, and merges the patches it accepts, then after a run of
  \<^verbatim>\<open>Provision\<close> that returns a volume the user's claim is there, names the volume and is marked as bound
  to it, and the volume is there: with policy \<^verbatim>\<open>Delete\<close> and a reference to the user's claim, if that is
  how the class reclaims, and otherwise with policy \<^verbatim>\<open>Retain\<close>.
\<close>

theorem Provision_binds_among_others:
  assumes "wf_provisioner p" and "backoff_contract (hp_client p)" and "retain_respected vols (hp_client p)"
    and "binding_respected marshal claims (hp_client p)" and "marshal_contract marshal"
    and "plain_claim (opt_PVC opts)" and "honest (provision_calls p opts w)"
    and "\<forall>sc. chosen_class p opts = Some sc \<longrightarrow> unescaped (sc_Provisioner sc)"
    and "\<forall>n b x. PatchPV n b (Inr x) \<in> set (provision_calls p opts w) \<longrightarrow> unescaped (pv_Name x) \<and> pv_Name x \<noteq> []"
    and "run_state (Provision p opts) w = (Provisioned (Some v) st err, w')"
  shows "\<exists>sc. chosen_class p opts = Some sc \<and>
     marked_at claims sc (pv_Name v) (pvc_Namespace (opt_PVC opts), pvc_Name (opt_PVC opts)) (env w') \<and>
     (if sc_ReclaimPolicy sc = Some ''Delete'' then owned vols (opt_PVC opts) (env w') (pv_Name v)
      else held vols (env w') (pv_Name v))"
proof -
  let ?tr = "provision_calls p opts w"
  note served = Provision_served(2) [OF assms(1,2,10)]
  have ret: "provision_returns p opts w = Provisioned (Some v) st err" using assms(10) by (simp add: provision_returns_def)
  from assms(1,2) ret show ?thesis
  proof (rule Provision_won)
    fix sc n claim v0
    let ?x = "protocol_of p opts sc n"
    assume sc: "chosen_class p opts = Some sc" and v: "pv_Name v0 = pv_Name v"
      and reach: "proto_reach ?x ?tr (final_phase ?x claim v0)"
    have driver: "unescaped (sc_Provisioner (pr_class ?x))" using assms(8) sc by simp
    have "5 \<le> progress (final_phase ?x claim v0)" "phase_volume (final_phase ?x claim v0) = Some v0" by auto
    from reach_marks [OF assms(4,5) driver reach served assms(9) this] v
    have marked: "marked_at claims sc (pv_Name v) (pvc_Namespace (opt_PVC opts), pvc_Name (opt_PVC opts)) (env w')"
      by (simp add: wanted_ns_def)
    from final_phase_freed [OF reach] assms(7) v have vol: "pvc_VolumeName claim = pv_Name v" by (fastforce simp: honest_def)
    have touched: "pv_Name v \<in> fst ` set (applied ?tr)"
      using applied_reach [OF reach] vol by (auto split: if_splits)
    show ?thesis
    proof (cases "deletes_volume ?x")
      case False
      with reach_keeps [OF assms(3) _ reach served, of "pv_Name v"] assms(6) touched marked sc show ?thesis
        by (auto simp: deletes_volume_def PersistentVolumeReclaimDelete_def)
    next
      case True
      then have "sc_ReclaimPolicy sc = Some ''Delete''" by (simp add: deletes_volume_def PersistentVolumeReclaimDelete_def)
      moreover have "owned vols (opt_PVC opts) (env w') (pv_Name v)"
        using settled_owned [OF assms(3) _ _ served, of ?x claim v0] reach assms(6) True v by simp
      ultimately show ?thesis using marked sc by simp
    qed
  qed
qed

theorem Provision_binds_among_others_witness:
  "\<exists>w'. run_state (Provision store_provisioner sample_opts) store_world =
       (Provisioned (Some released_pv) ProvisioningFinished None, w') \<and>
     marked_at snd proxmox_class ''pv-1'' (''default'', ''storage-test-0'') (env w') \<and>
     owned fst user_claim (env w') ''pv-1''"
proof -
  from store_run obtain e where
    run: "run_state (Provision store_provisioner sample_opts) store_world =
      (Provisioned (Some released_pv) ProvisioningFinished None, \<lparr>env = e, calls = sample_calls\<rparr>)" by blast
  then have log: "provision_calls store_provisioner sample_opts store_world = sample_calls"
    by (simp add: provision_calls_def store_world_def)
  have opts: "opt_PVC sample_opts = user_claim" "pvc_Namespace user_claim = ''default''" "pvc_Name user_claim = ''storage-test-0''"
    by (simp_all add: sample_opts_def user_claim_def)
  have contracts: "retain_respected fst (hp_client store_provisioner)"
    "binding_respected sample_marshal snd (hp_client store_provisioner)"
    by (simp_all add: store_retains store_keeps_bindings)
  have plain: "plain_claim (opt_PVC sample_opts)" unfolding opts by code_simp
  have honest: "honest (provision_calls store_provisioner sample_opts store_world)"
    unfolding log by (rule sample_honest)
  have "unescaped (sc_Provisioner proxmox_class)" by code_simp
  then have driver: "\<forall>sc. chosen_class store_provisioner sample_opts = Some sc \<longrightarrow> unescaped (sc_Provisioner sc)"
    unfolding sample_chosen by simp
  have "unescaped ''pv-1''" by code_simp
  then have vols: "\<forall>n b x. PatchPV n b (Inr x) \<in> set (provision_calls store_provisioner sample_opts store_world) \<longrightarrow>
      unescaped (pv_Name x) \<and> pv_Name x \<noteq> []"
    unfolding log sample_calls_def by (auto simp: sample_pv_def)
  have "pv_Name released_pv = ''pv-1''" "sc_ReclaimPolicy proxmox_class = Some ''Delete''"
    by (simp_all add: released_pv_def sample_pv_def proxmox_class_def PersistentVolumeReclaimDelete_def)
  with Provision_binds_among_others [OF store_ok contracts sample_marshal_contract plain honest driver vols run] run
  show ?thesis
    unfolding opts sample_chosen by auto
qed

end
