(* ===== verification/Liveness.thy ===== *)
theory Liveness
  imports Attempts Served
begin

text \<open>
  Success: while the environment cooperates \<^verbatim>\<open>Provision\<close> returns a volume in either method, so the
  attempts at a request end in success as soon as it does, whatever went wrong before.
\<close>

section \<open>A cooperative environment\<close>

text \<open>
  Answers with which nothing goes wrong: the cache finds the claim or says it is absent, every write
  succeeds and the watch delivers a modification to a bound claim before it ends.
\<close>

fun fine_answer :: "call \<Rightarrow> bool" where
  "fine_answer (ListerGetPVC ns name r) = (case r of Inl err \<Rightarrow> IsNotFound err | Inr _ \<Rightarrow> True)"
| "fine_answer (WatchPVC ns sel r) =
     (case r of Inl _ \<Rightarrow> False | Inr events \<Rightarrow> \<exists>ev\<in>set (received events). bind_accept ev \<noteq> None)"
| "fine_answer (CreatePVC ns q r) = (\<not> isl r)"
| "fine_answer (PatchPVC ns name b r) = (\<not> isl r)"
| "fine_answer (PatchPV name b r) = (\<not> isl r)"
| "fine_answer (DeletePVC ns name pol err) = (err = None)"
| "fine_answer (CreatePod ns q r) = (snd r = None)"
| "fine_answer (DeletePod ns name err) = (err = None)"
| "fine_answer _ = True"

text \<open>In an environment of \<open>G\<close> every answer is fine, and the environment stays in \<open>G\<close>.\<close>

definition cooperates :: "('e \<Rightarrow> bool) \<Rightarrow> 'e client \<Rightarrow> bool" where
  "cooperates G c \<longleftrightarrow> (\<forall>e x e'. G e \<longrightarrow> answered c e x e' \<longrightarrow> fine_answer x \<and> G e')"

abbreviation good :: "('e \<Rightarrow> bool) \<Rightarrow> 'e world \<Rightarrow> bool" where
  "good G w \<equiv> G (env w)"

section \<open>Operations that succeed\<close>

abbreviation yields :: "('s \<Rightarrow> bool) \<Rightarrow> ('a \<Rightarrow> bool) \<Rightarrow> ('s, 'a) state \<Rightarrow> bool" where
  "yields I ok m \<equiv> triple I m (\<lambda>r s. ok r \<and> I s)"

abbreviation no_error :: "'a + 'b \<Rightarrow> bool" where
  "no_error r \<equiv> \<not> isl r"

named_theorems yields_rules \<open>an operation whose calls succeed succeeds\<close>

lemma yields_return [yields_rules]: "ok x \<Longrightarrow> yields I ok (State_Monad.return x)"
  by (simp add: triple_return)

lemma yields_sum [yields_rules]:
  "yields I no_error m \<Longrightarrow> (\<And>v. yields I ok (g v)) \<Longrightarrow>
   yields I ok (State_Monad.bind m (\<lambda>r. case r of Inl e \<Rightarrow> f e | Inr v \<Rightarrow> g v))"
  by (erule triple_bind) (auto simp: triple_def split: sum.split)

lemma yields_option [yields_rules]:
  "yields I (\<lambda>r. r = None) m \<Longrightarrow> yields I ok f \<Longrightarrow>
   yields I ok (State_Monad.bind m (\<lambda>r. case r of None \<Rightarrow> f | Some e \<Rightarrow> g e))"
  by (erule triple_bind) (auto simp: triple_def split: option.split)

lemma yields_if [yields_rules]: "yields I ok m \<Longrightarrow> yields I ok n \<Longrightarrow> yields I ok (if b then m else n)"
  by simp

lemma yields_retry:
  assumes "yields I (\<lambda>r. r = Inr True) cond"
  shows "yields I no_error (retry (Suc n) cond)"
  unfolding retry.simps
  by (rule triple_bind [OF assms]) (auto simp: triple_def split: prod.splits)

lemma good_perform:
  assumes "cooperates G c" and "\<And>e. answered c e (k (fst (f e))) (snd (f e))"
  shows "yields (good G) (\<lambda>r. fine_answer (k r)) (perform f k)"
  using assms unfolding cooperates_def triple_def by (simp add: split_beta) blast

lemma good_calls:
  assumes "cooperates G c"
  shows "yields (good G) (\<lambda>r. case r of Inl err \<Rightarrow> IsNotFound err | Inr _ \<Rightarrow> True) (lister_get_pvc c ns name)"
    and "yields (good G) no_error (create_pvc c ns q)"
    and "yields (good G) (\<lambda>r. case r of Inl _ \<Rightarrow> False | Inr events \<Rightarrow> \<exists>ev\<in>set (received events). bind_accept ev \<noteq> None)
      (watch_pvc c ns sel)"
    and "yields (good G) no_error (patch_pvc c ns name b)"
    and "yields (good G) no_error (patch_pv c name b)"
    and "yields (good G) (\<lambda>err. err = None) (delete_pvc c ns name pol)"
    and "yields (good G) (\<lambda>r. snd r = None) (create_pod c ns x)"
    and "yields (good G) (\<lambda>err. err = None) (delete_pod c ns name)"
  unfolding call_defs
  by (rule good_perform [OF assms, where k = "ListerGetPVC ns name", unfolded fine_answer.simps]
      good_perform [OF assms, where k = "CreatePVC ns q", unfolded fine_answer.simps]
      good_perform [OF assms, where k = "WatchPVC ns sel", unfolded fine_answer.simps]
      good_perform [OF assms, where k = "PatchPVC ns name b", unfolded fine_answer.simps]
      good_perform [OF assms, where k = "PatchPV name b", unfolded fine_answer.simps]
      good_perform [OF assms, where k = "DeletePVC ns name pol", unfolded fine_answer.simps]
      good_perform [OF assms, where k = "CreatePod ns x", unfolded fine_answer.simps]
      good_perform [OF assms, where k = "DeletePod ns name", unfolded fine_answer.simps]; simp)+

section \<open>The operations of the provisioner\<close>

lemma good_backoff:
  assumes "wf_provisioner p" and "backoff_contract (hp_client p)" and "yields I (\<lambda>r. r = Inr True) cond"
  shows "yields I no_error (cl_ExponentialBackoff (hp_client p) (hp_backoff p) cond)"
  unfolding backoff_five [OF assms(1,2)] using yields_retry [OF assms(3), of 4] by (simp add: eval_nat_numeral)

lemma good_ensure:
  assumes "cooperates G (hp_client p)"
  shows "yields (good G) (\<lambda>err. err = None) (ensure_pvc p q)"
proof -
  have "yields (good G) (\<lambda>err. err = None) (create_pvc (hp_client p) (pvc_Namespace q) q
      \<bind> (\<lambda>r. case r of Inl err \<Rightarrow> State_Monad.return (Some (failed m err)) | Inr _ \<Rightarrow> State_Monad.return None))" for m
    by (intro yields_sum [OF good_calls(2) [OF assms]] yields_return) simp
  then show ?thesis
    unfolding ensure_pvc_def
    by (intro triple_bind [OF good_calls(1) [OF assms]]) (auto simp: triple_def split: sum.split)
qed

lemma good_wait:
  assumes "cooperates G (hp_client p)"
  shows "yields (good G) no_error (waitBindPVC p claim)"
proof -
  have "no_error (waitBind_loop name events)" if "\<exists>ev\<in>set (received events). bind_accept ev \<noteq> None" for name events
    using that binding.loop_progress [of _ events name] by (auto simp: isl_def) force
  then show ?thesis
    unfolding waitBindPVC_def
    by (intro triple_bind [OF good_calls(3) [OF assms]]) (auto simp: triple_def split: sum.split)
qed

lemma good_release_and_bond:
  assumes "wf_provisioner p" and "backoff_contract (hp_client p)" and "cooperates G (hp_client p)"
  shows "yields (good G) no_error (release_and_bond p opts sc claim)"
proof -
  have once: "yields (good G) (\<lambda>r. r = Inr True) (try_delete_pvc p claim)"
    unfolding try_delete_pvc_def by (intro yields_option [OF good_calls(6) [OF assms(3)]] yields_return) simp
  have "yields (good G) no_error (releasePV p claim)"
    unfolding releasePV_def
    by (intro yields_sum [OF good_calls(5) [OF assms(3)]] yields_sum [OF good_calls(4) [OF assms(3)]]
        yields_sum [OF good_backoff [OF assms(1,2) once]] yields_return) simp
  moreover have "yields (good G) (\<lambda>err. err = None) (bondPVC p opts vol sc)" for vol
    unfolding bondPVC_def
    by (intro yields_sum [OF good_calls(5) [OF assms(3)]] yields_sum [OF good_calls(4) [OF assms(3)]]
        yields_if yields_return) simp_all
  ultimately show ?thesis
    unfolding release_and_bond_def by (intro yields_sum yields_option yields_return) simp_all
qed

abbreviation made :: "(go_error + 'a) run \<Rightarrow> bool" where
  "made r \<equiv> \<exists>v. r = Done (Inr v)"

lemma good_finish:
  assumes "wf_provisioner p" and "backoff_contract (hp_client p)" and "cooperates G (hp_client p)"
  shows "yields (good G) made (release_and_bond p opts sc claim \<bind> (\<lambda>r. State_Monad.return (Done r)))"
proof (rule triple_bind [OF good_release_and_bond [OF assms]])
  show "triple (\<lambda>w. no_error r \<and> good G w) (State_Monad.return (Done r)) (\<lambda>r w. made r \<and> good G w)"
    for r :: "go_error + pv" by (cases r) (auto simp: triple_def)
qed

lemma good_create:
  assumes "wf_provisioner p" and "backoff_contract (hp_client p)" and "cooperates G (hp_client p)"
    and "opt_SelectedNode opts = Some n"
  shows "yields (good G) made (createPVbyAnnotation p opts sc)" and "yields (good G) made (createPVbyPOD p opts sc)"
proof -
  note wait = yields_sum [OF good_wait [OF assms(3)]] and ensure = yields_option [OF good_ensure [OF assms(3)]]
  note finish = good_finish [OF assms(1-3)]
  show "yields (good G) made (createPVbyAnnotation p opts sc)"
    unfolding createPVbyAnnotation_def assms(4) option.case Let_def by (intro ensure wait finish)
  have once: "yields (good G) (\<lambda>r. r = Inr True) (try_delete_pod p x)" for x
    unfolding try_delete_pod_def by (intro yields_option [OF good_calls(8) [OF assms(3)]] yields_return) simp
  have after: "yields (good G) made (waitBindPVC p q \<bind> (\<lambda>r. case r of
        Inl err \<Rightarrow> State_Monad.return (Done (Inl err))
      | Inr claim \<Rightarrow> cl_ExponentialBackoff (hp_client p) (hp_backoff p) (try_delete_pod p x) \<bind> (\<lambda>r. case r of
          Inl err \<Rightarrow> State_Monad.return (Done (Inl err))
        | Inr _ \<Rightarrow> release_and_bond p opts sc claim \<bind> (\<lambda>r. State_Monad.return (Done r)))))" for q x
    by (intro wait yields_sum [OF good_backoff [OF assms(1,2) once]] finish)
  show "yields (good G) made (createPVbyPOD p opts sc)"
    unfolding createPVbyPOD_def assms(4) option.case Let_def
    by (intro ensure, rule triple_bind [OF good_calls(7) [OF assms(3)]], intro triple_prod)
      (use after in \<open>auto simp: triple_def\<close>)
qed

text \<open>One run in a good environment.\<close>

lemma good_Provision:
  assumes "wf_provisioner p" and "backoff_contract (hp_client p)" and "cooperates G (hp_client p)"
    and "chosen_class p opts = Some sc" and "G (env w)"
  shows "\<exists>v. provision_returns p opts w = Provisioned (Some v) ProvisioningFinished None"
proof -
  obtain n where n: "opt_SelectedNode opts = Some n" using chosen_class_node [OF assms(4)] by blast
  let ?create = "if creation_kind p = ByPod then createPVbyPOD p opts sc else createPVbyAnnotation p opts sc"
  have "yields (good G) made ?create" using good_create [OF assms(1-3) n] by simp
  moreover obtain r w' where "run_state ?create w = (r, w')" by (metis prod.exhaust)
  ultimately show ?thesis
    using assms(5) tripleD [of "good G" ?create] unfolding provision_returns_def Provision_chosen [OF assms(1,4)]
    by (fastforce simp: provision_result_of_def)
qed

text \<open>An attempt succeeds, is followed by another one, or panics.\<close>

lemma result_kinds:
  assumes "wf_provisioner p" and "backoff_contract (hp_client p)"
  obtains (success) v where "provision_returns p opts w = Provisioned (Some v) ProvisioningFinished None"
    | (failure) "retriable (provision_returns p opts w)" | (panic) m where "provision_returns p opts w = ProvisionPanic m"
  using assms
proof (cases rule: Provision_cases [of p opts w])
  case idle
  then show ?thesis
    using failure panic
    by (auto simp: provision_returns_def Provision_def chosen_class_def requested_classes_def retriable_def
        split: option.splits run.splits sum.splits)
next
  case (ran sc n ph r)
  then show ?thesis
    using success failure
    by (auto simp: run_outcome_def provision_result_of_def retriable_def split: run.splits sum.splits)
qed

text \<open>Nothing is dereferenced that may be nil: a node is selected and the cache of classes is sound.\<close>

definition no_nil :: "'e attempt \<Rightarrow> bool" where
  "no_nil a \<longleftrightarrow> opt_SelectedNode (at_options a) \<noteq> None \<and> (\<forall>name. hp_scLister (at_provisioner a) name \<noteq> Inr None)"

section \<open>Properties\<close>

text \<open>
  In a cooperative environment \<^verbatim>\<open>Provision\<close> returns a volume, once a backing class is chosen,
  in every method.
\<close>

theorem Provision_succeeds:
  assumes "wf_provisioner p" and "backoff_contract (hp_client p)" and "cooperates (\<lambda>_. True) (hp_client p)"
    and "chosen_class p opts = Some sc"
  shows "\<exists>v. provision_returns p opts w = Provisioned (Some v) ProvisioningFinished None"
  using good_Provision [OF assms] by simp

lemma sample_cooperates: "cooperates (\<lambda>_. True) sample_client"
proof -
  have "fine_answer x" if "answered sample_client e x e'" for e x e'
    using that by (cases x)
      (auto simp: sample_client_def IsNotFound_def sample_events_def bind_accept_def sample_claim_def ClaimBound_def)
  then show ?thesis by (simp add: cooperates_def)
qed

theorem Provision_succeeds_witness:
  "\<exists>v. provision_returns (sample_provisioner sample_client ''pod'') sample_opts sample_world
     = Provisioned (Some v) ProvisioningFinished None"
  by (rule Provision_succeeds [OF sample_ok _ sample_chosen]) (simp add: sample_cooperates)

text \<open>
  C18: the attempts at a request end in success. If after some number of attempts, with whatever errors
  and whatever the caches were, the environment cooperates and the next attempt finds a class, then that
  attempt is enough: the last attempt returns a volume. None of the attempts before it ends the request, as
  long as a node is selected in each of them and the lister of classes never answers nil without an error.
\<close>

theorem attempts_succeed:
  assumes "at_request c opts as" and "cooperates G c" and "k < length as" and "class_of (as ! k) = Some sc"
    and "\<forall>a\<in>set (take k as). no_nil a" and "G (env (attempt_world (take k as) w))"
  shows "\<exists>v. last (attempt_results as w) = Provisioned (Some v) ProvisioningFinished None"
  using assms(1,3-6)
proof (induction k arbitrary: as w)
  case 0
  then obtain a bs where "as = a # bs" by (cases as) auto
  with good_Provision [of "at_provisioner a" G "at_options a" sc w] 0 assms(2) show ?case
    by (auto simp: retriable_def at_request_def)
next
  case (Suc k)
  then obtain a bs where as: "as = a # bs" by (cases as) auto
  with Suc.prems(2) have "bs \<noteq> []" by auto
  from as Suc.prems have a: "wf_provisioner (at_provisioner a)" "backoff_contract (hp_client (at_provisioner a))" "no_nil a"
    by (auto simp: at_request_def)
  from a(1,2) show ?case
  proof (cases rule: result_kinds [of "at_provisioner a" "at_options a" w])
    case (success v)
    with as show ?thesis by (auto simp: retriable_def)
  next
    case failure
    with Suc.prems as have "\<exists>v. last (attempt_results bs (next_world a w)) = Provisioned (Some v) ProvisioningFinished None"
      by (intro Suc.IH) auto
    with failure as \<open>bs \<noteq> []\<close> show ?thesis by simp
  next
    case (panic m)
    with no_panic [OF a(1,2)] a(3) show ?thesis by (auto simp: no_nil_def)
  qed
qed

text \<open>Once the first hand-over has been refused the sample environment cooperates.\<close>

lemma flaky_cooperates: "cooperates (\<lambda>refused. refused) flaky_client"
proof -
  have "fine_answer x \<and> e'" if "answered flaky_client True x e'" for x e'
    using that by (cases x)
      (auto simp: flaky_client_def calm_client_def IsNotFound_def sample_events_def bind_accept_def sample_claim_def ClaimBound_def)
  then show ?thesis by (auto simp: cooperates_def)
qed

theorem attempts_succeed_witness:
  "\<exists>v. last (attempt_results flaky_requests flaky_world) = Provisioned (Some v) ProvisioningFinished None"
proof -
  have "env (attempt_world (take 1 flaky_requests) flaky_world)"
    by (simp add: eval_nat_numeral next_world_def provision_returns_def flaky_world_def flaky_run retriable_def)
  moreover have "cooperates (\<lambda>refused. refused) (hp_client flaky_provisioner)" by (simp add: flaky_cooperates)
  moreover have "\<forall>a\<in>set (take 1 flaky_requests). no_nil a"
    by (simp add: no_nil_def sample_opts_def sample_classes_def)
  ultimately show ?thesis
    using attempts_succeed [OF again_at_request [OF flaky_ok], of "\<lambda>refused. refused" 1 2 sample_opts proxmox_class flaky_world]
      by (simp add: sample_chosen)
qed

end
