(* ===== verification/Exactness.thy ===== *)
theory Exactness
  imports ProvisionProps Served
begin

text \<open>
  The protocol is no looser than the code: a log is the beginning of some run of \<^verbatim>\<open>Provision\<close> exactly
  when it is a path of the protocol on which each deletion is asked for at most five times. One
  direction is the refinement with a count of the questions; for the other an API server plays the
  answers of the path back.
\<close>

section \<open>Five questions of a kind\<close>

lemma costs_free:
  assumes "\<And>r. \<not> P (c r)" and "\<And>x. costs P (g x) k"
  shows "costs P (State_Monad.bind (perform f c) g) k"
proof -
  have "costs P (perform f c) 0" using assms(1) by (simp add: costs_def)
  from costs_bind [OF this assms(2)] show ?thesis by simp
qed

lemma costs_backoff_free:
  assumes "wf_provisioner p" and "backoff_contract (hp_client p)"
    and "costs P cond 0" and "\<And>x. costs P (g x) k"
  shows "costs P (State_Monad.bind (cl_ExponentialBackoff (hp_client p) (hp_backoff p) cond) g) k"
  unfolding backoff_five [OF assms(1,2)]
  using costs_bind [OF costs_retry [OF assms(3), of 5] assms(4)] by simp

text \<open>The parts that ask for neither deletion.\<close>

lemma few_asks_parts:
  assumes "P = asks_claim \<or> P = asks_pod"
  shows "costs P (ensure_pvc p q) 0" and "costs P (waitBindPVC p q) 0" and "costs P (bondPVC p opts name sc) 0"
  unfolding ensure_pvc_def waitBindPVC_def bondPVC_def call_defs
  using assms by (intro costs_free costs_rules; auto)+

lemma few_asks_try: "costs asks_pod (try_delete_pvc p claim) 0" "costs asks_claim (try_delete_pod p q) 0"
  unfolding try_delete_pvc_def try_delete_pod_def call_defs
  by (intro costs_free costs_rules; simp)+

lemma few_asks_release:
  assumes "wf_provisioner p" and "backoff_contract (hp_client p)"
  shows "costs asks_claim (releasePV p claim) 5" and "costs asks_pod (releasePV p claim) 0"
proof -
  have "costs asks_claim (releasePV p claim) (5 + 0)"
    unfolding releasePV_def patch_pv_def patch_pvc_def
    by (intro costs_free costs_rules costs_backoff [OF assms] costs_try; simp)
  then show "costs asks_claim (releasePV p claim) 5" by simp
  show "costs asks_pod (releasePV p claim) 0"
    unfolding releasePV_def patch_pv_def patch_pvc_def
    by (intro costs_free costs_rules costs_backoff_free [OF assms] few_asks_try; simp)
qed

lemma few_asks_release_and_bond:
  assumes "wf_provisioner p" and "backoff_contract (hp_client p)"
  shows "costs asks_claim (release_and_bond p opts sc claim) 5" and "costs asks_pod (release_and_bond p opts sc claim) 0"
proof -
  have "costs P (release_and_bond p opts sc claim) (k + (0 + 0))"
    if "costs P (releasePV p claim) k" "P = asks_claim \<or> P = asks_pod" for P k
    unfolding release_and_bond_def
    by (intro costs_bind [OF that(1)] costs_sum costs_bind [OF few_asks_parts(3) [OF that(2)]] costs_rules)
  from this [OF few_asks_release(1) [OF assms]] this [OF few_asks_release(2) [OF assms]]
  show "costs asks_claim (release_and_bond p opts sc claim) 5" and "costs asks_pod (release_and_bond p opts sc claim) 0"
    by simp_all
qed

lemma few_asks_create:
  assumes wf: "wf_provisioner p" "backoff_contract (hp_client p)" and P: "P = asks_claim \<or> P = asks_pod"
  shows "costs P (createPVbyAnnotation p opts sc) 5" and "costs P (createPVbyPOD p opts sc) 5"
proof -
  have release: "costs P (release_and_bond p opts sc claim) 5" for claim
    using P few_asks_release_and_bond [OF wf] costs_mono [OF few_asks_release_and_bond(2) [OF wf]] by auto
  note parts = few_asks_parts [OF P]
  have "costs P (createPVbyAnnotation p opts sc) (0 + (0 + (5 + 0)))"
    unfolding createPVbyAnnotation_def Let_def
    by (intro costs_option costs_bind [OF parts(1)] costs_bind [OF parts(2)] costs_sum costs_bind [OF release] costs_return)
  then show "costs P (createPVbyAnnotation p opts sc) 5" by simp
  have pod: "costs P (cl_ExponentialBackoff (hp_client p) (hp_backoff p) (try_delete_pod p q) \<bind> (\<lambda>r. case r of
          Inl err \<Rightarrow> State_Monad.return (Done (Inl err))
        | Inr u \<Rightarrow> release_and_bond p opts sc claim \<bind> (\<lambda>r. State_Monad.return (Done r)))) 5" for q claim
  proof (cases "P = asks_claim")
    case True
    have "costs asks_claim (cl_ExponentialBackoff (hp_client p) (hp_backoff p) (try_delete_pod p q) \<bind> (\<lambda>r. case r of
          Inl err \<Rightarrow> State_Monad.return (Done (Inl err))
        | Inr u \<Rightarrow> release_and_bond p opts sc claim \<bind> (\<lambda>r. State_Monad.return (Done r)))) (5 + 0)"
      using True release by (intro costs_backoff_free [OF wf few_asks_try(2)] costs_sum costs_bind costs_return) auto
    with True show ?thesis by simp
  next
    case False
    with P have "P = asks_pod" by simp
    then have "costs P (cl_ExponentialBackoff (hp_client p) (hp_backoff p) (try_delete_pod p q) \<bind> (\<lambda>r. case r of
          Inl err \<Rightarrow> State_Monad.return (Done (Inl err))
        | Inr u \<Rightarrow> release_and_bond p opts sc claim \<bind> (\<lambda>r. State_Monad.return (Done r)))) (5 + (0 + 0))"
      using few_asks_release_and_bond(2) [OF wf]
      by (intro costs_backoff [OF wf costs_try(2)] costs_sum costs_bind costs_return) auto
    then show ?thesis by simp
  qed
  have "costs P (createPVbyPOD p opts sc) (0 + (0 + 5))"
    unfolding createPVbyPOD_def Let_def create_pod_def
    using P by (intro costs_option costs_bind [OF parts(1)] costs_free costs_split_pair
        costs_bind [OF parts(2)] costs_sum pod costs_return; auto)
  then show "costs P (createPVbyPOD p opts sc) 5" by simp
qed

text \<open>A log with no more questions than the code asks.\<close>

definition patient :: "call list \<Rightarrow> bool" where
  "patient tr \<longleftrightarrow> length (filter asks_claim tr) \<le> 5 \<and> length (filter asks_pod tr) \<le> 5"

lemma patient_appendD: "patient (tr @ tr') \<Longrightarrow> patient tr"
  by (simp add: patient_def)

lemma Provision_patient:
  assumes "wf_provisioner p" and "backoff_contract (hp_client p)"
  shows "patient (provision_calls p opts w)"
proof (cases "chosen_class p opts")
  case None
  from Provision_not_chosen [OF this, of w] show ?thesis by (auto simp: provision_calls_def patient_def)
next
  case (Some sc)
  obtain r w' where run: "run_state (Provision p opts) w = (r, w')" by (metis prod.exhaust)
  have few: "length (filter P (provision_calls p opts w)) \<le> 5" if "P = asks_claim \<or> P = asks_pod" for P
  proof -
    have "costs P (Provision p opts) (5 + 0)"
      unfolding Provision_chosen [OF assms(1) Some]
      using few_asks_create [OF assms that, of opts sc] by (intro costs_bind costs_return) auto
    with run have "length (filter P (calls w')) \<le> length (filter P (calls w)) + 5"
      unfolding costs_def by (metis add_0_right snd_conv)
    with Provision_served(1) [OF assms run] show ?thesis by simp
  qed
  then show ?thesis by (simp add: patient_def)
qed

section \<open>Questions\<close>

text \<open>A call without its answer.\<close>

fun question :: "call \<Rightarrow> call" where
  "question (ListerGetPVC ns name r) = ListerGetPVC ns name (Inl (NotFound []))"
| "question (CreatePVC ns c r) = CreatePVC ns c (Inl (NotFound []))"
| "question (GetPVC ns name r) = GetPVC ns name (Inl (NotFound []))"
| "question (PatchPVC ns name b r) = PatchPVC ns name b (Inl (NotFound []))"
| "question (DeletePVC ns name pol r) = DeletePVC ns name pol None"
| "question (WatchPVC ns sel r) = WatchPVC ns sel (Inl (NotFound []))"
| "question (GetPV name r) = GetPV name (Inl (NotFound []))"
| "question (PatchPV name b r) = PatchPV name b (Inl (NotFound []))"
| "question (WatchPV sel r) = WatchPV sel (Inl (NotFound []))"
| "question (CreatePod ns q r) = CreatePod ns q (zero_pod, None)"
| "question (DeletePod ns name r) = DeletePod ns name None"
| "question (ListPods ns r) = ListPods ns (Inl (NotFound []))"
| "question (GetNode name r) = GetNode name (Inl (NotFound []))"
| "question (PatchNode name b r) = PatchNode name b None"
| "question (ListCSINodes r) = ListCSINodes (Inl (NotFound []))"

text \<open>In each phase the protocol has one question.\<close>

lemma one_question: "proto_step x ph c ph1 \<Longrightarrow> proto_step x ph d ph2 \<Longrightarrow> question c = question d"
  by (induction rule: proto_step.induct) (auto elim!: proto_step.cases)

lemma reach_deterministic: "proto_reach x tr ph1 \<Longrightarrow> proto_reach x tr ph2 \<Longrightarrow> ph1 = ph2"
proof (induction arbitrary: ph2 rule: proto_reach.induct)
  case reach_start
  then show ?case by (auto elim: proto_reach.cases)
next
  case (reach_step tr ph c ph')
  from reach_step.prems obtain ph0 where "proto_reach x tr ph0" "proto_step x ph0 c ph2"
    by (cases rule: proto_reach.cases) auto
  with reach_step show ?case using proto_step_deterministic by metis
qed

section \<open>An API server that plays a log back\<close>

text \<open>
  The answers of a call by their types. The server keeps the rest of the log; a question that is not
  the next one makes it forget the rest.
\<close>

fun claim_answer :: "call \<Rightarrow> api_error + pvc" where
  "claim_answer (ListerGetPVC ns name r) = r"
| "claim_answer (CreatePVC ns c r) = r"
| "claim_answer (GetPVC ns name r) = r"
| "claim_answer (PatchPVC ns name b r) = r"
| "claim_answer _ = Inl (NotFound [])"

fun volume_answer :: "call \<Rightarrow> api_error + pv" where
  "volume_answer (GetPV name r) = r"
| "volume_answer (PatchPV name b r) = r"
| "volume_answer _ = Inl (NotFound [])"

fun error_answer :: "call \<Rightarrow> api_error option" where
  "error_answer (DeletePVC ns name pol r) = r"
| "error_answer (DeletePod ns name r) = r"
| "error_answer (PatchNode name b r) = r"
| "error_answer _ = None"

fun claim_events :: "call \<Rightarrow> api_error + pvc watch_event select_run" where
  "claim_events (WatchPVC ns sel r) = r"
| "claim_events _ = Inl (NotFound [])"

fun volume_events :: "call \<Rightarrow> api_error + pv watch_event select_run" where
  "volume_events (WatchPV sel r) = r"
| "volume_events _ = Inl (NotFound [])"

fun pod_answer :: "call \<Rightarrow> pod \<times> api_error option" where
  "pod_answer (CreatePod ns q r) = r"
| "pod_answer _ = (zero_pod, None)"

fun pods_answer :: "call \<Rightarrow> api_error + pod list" where
  "pods_answer (ListPods ns r) = r"
| "pods_answer _ = Inl (NotFound [])"

fun node_answer :: "call \<Rightarrow> api_error + node" where
  "node_answer (GetNode name r) = r"
| "node_answer _ = Inl (NotFound [])"

fun csi_nodes_answer :: "call \<Rightarrow> api_error + csi_node list" where
  "csi_nodes_answer (ListCSINodes r) = r"
| "csi_nodes_answer _ = Inl (NotFound [])"

fun recite :: "(call \<Rightarrow> 'r) \<Rightarrow> call \<Rightarrow> call list \<Rightarrow> 'r \<times> call list" where
  "recite ans q [] = (ans q, [])"
| "recite ans q (c # cs) = (if question c = question q then (ans c, cs) else (ans q, []))"

definition script_client :: "call list client" where
  "script_client =
     \<lparr>cl_ListerGetPVC = (\<lambda>ns name. recite claim_answer (ListerGetPVC ns name (Inl (NotFound [])))),
      cl_CreatePVC = (\<lambda>ns c. recite claim_answer (CreatePVC ns c (Inl (NotFound [])))),
      cl_GetPVC = (\<lambda>ns name. recite claim_answer (GetPVC ns name (Inl (NotFound [])))),
      cl_PatchPVC = (\<lambda>ns name b. recite claim_answer (PatchPVC ns name b (Inl (NotFound [])))),
      cl_DeletePVC = (\<lambda>ns name pol. recite error_answer (DeletePVC ns name pol None)),
      cl_WatchPVC = (\<lambda>ns sel. recite claim_events (WatchPVC ns sel (Inl (NotFound [])))),
      cl_GetPV = (\<lambda>name. recite volume_answer (GetPV name (Inl (NotFound [])))),
      cl_PatchPV = (\<lambda>name b. recite volume_answer (PatchPV name b (Inl (NotFound [])))),
      cl_WatchPV = (\<lambda>sel. recite volume_events (WatchPV sel (Inl (NotFound [])))),
      cl_CreatePod = (\<lambda>ns q. recite pod_answer (CreatePod ns q (zero_pod, None))),
      cl_DeletePod = (\<lambda>ns name. recite error_answer (DeletePod ns name None)),
      cl_ListPods = (\<lambda>ns. recite pods_answer (ListPods ns (Inl (NotFound [])))),
      cl_GetNode = (\<lambda>name. recite node_answer (GetNode name (Inl (NotFound [])))),
      cl_PatchNode = (\<lambda>name b. recite error_answer (PatchNode name b None)),
      cl_ListCSINodes = recite csi_nodes_answer (ListCSINodes (Inl (NotFound []))),
      cl_ExponentialBackoff = (\<lambda>b cond. retry (nat (bo_Steps b)) cond)\<rparr>"

lemma script_contract: "backoff_contract script_client"
  by (rule retry_contract) (simp add: script_client_def)

text \<open>The next call of the log if it asks the question, and otherwise nothing more of the log.\<close>

lemma script_answers:
  "answered script_client e c e' \<Longrightarrow>
     e = c # e' \<or> e = [] \<and> e' = [] \<or> (\<exists>d cs. e = d # cs \<and> question d \<noteq> question c \<and> e' = [])"
proof (cases e)
  case Nil
  then show "answered script_client e c e' \<Longrightarrow> ?thesis"
    by (cases c) (simp_all add: script_client_def)
next
  case (Cons d cs)
  then show "answered script_client e c e' \<Longrightarrow> ?thesis"
    by (cases c; cases d) (auto simp: script_client_def split: if_splits)
qed

text \<open>A run against this server makes the calls of the path, as far as both go.\<close>

lemma script_follows:
  assumes "proto_reach x tr end_phase"
  shows "served script_client tr lg e' \<Longrightarrow> proto_reach x lg ph \<Longrightarrow> tr = lg @ e' \<or> (\<exists>b. lg = tr @ b)"
proof (induction arbitrary: ph rule: served.induct)
  case served_start
  then show ?case by simp
next
  case (served_call lg e1 c e2)
  from served_call.prems obtain ph0 where c: "proto_reach x lg ph0" "proto_step x ph0 c ph"
    by (cases rule: proto_reach.cases) auto
  from served_call.IH [OF c(1)] show ?case
  proof
    assume tr: "tr = lg @ e1"
    from script_answers [OF served_call.hyps(2)] consider "e1 = c # e2" | "e1 = []"
      | d cs where "e1 = d # cs" "question d \<noteq> question c" by blast
    then show ?thesis
    proof cases
      case 3
      with reach_split [of x lg d cs end_phase] assms tr obtain ph1 ph2 where
        "proto_reach x lg ph1" "proto_step x ph1 d ph2" by auto
      with reach_deterministic [OF c(1)] one_question [OF c(2)] 3(2) show ?thesis by metis
    qed (simp_all add: tr)
  qed auto
qed

lemma stop_is_final:
  assumes "run_outcome x r ph" and "weary ph lg" and "patient (lg @ c # rest)" and "proto_step x ph c ph'"
  shows False
proof (cases "\<exists>res. r = Done (Inr res)")
  case True
  with assms(1) obtain claim v where "ph = (if deletes_volume x then Settled claim v else Bonded claim v)"
    by (auto simp: run_outcome_def outcome_def finished_def)
  with assms(4) show ?thesis by (cases rule: proto_step.cases) (auto split: if_splits)
next
  case False
  with assms(1) have "given_up ph" by (auto simp: run_outcome_def outcome_def split: run.splits sum.splits)
  with assms(4) consider (claim) claim where "ph = Unprotected claim" "asks_claim c"
    | (pod) q claim where "ph = Mounted q claim" "asks_pod c"
    by (cases rule: proto_step.cases) (auto simp: given_up_def)
  then show ?thesis using assms(2,3) by cases (auto simp: weary_def patient_def)
qed

text \<open>The client is not asked for the class.\<close>

lemma provisioner_client [simp]:
  "wf_provisioner (p\<lparr>hp_client := c\<rparr>) = wf_provisioner p"
  "protocol_of (p\<lparr>hp_client := c\<rparr>) opts sc n = protocol_of p opts sc n"
  "chosen_class (p\<lparr>hp_client := c\<rparr>) opts = chosen_class p opts"
proof -
  have loop: "class_loop (p\<lparr>hp_client := c\<rparr>) cn nd names = class_loop p cn nd names" for cn nd names
    by (induction names) (simp_all add: not_csi_driver_def split: sum.split option.split run.split)
  show "chosen_class (p\<lparr>hp_client := c\<rparr>) opts = chosen_class p opts"
    by (simp add: chosen_class_def getStorageClassFromNode_def loop split: option.split sum.split)
qed (simp_all add: wf_provisioner_def protocol_of_def creation_kind_def)

text \<open>A beginning of a path is a path.\<close>

lemma reach_prefix: "proto_reach x (a @ b) ph \<Longrightarrow> \<exists>ph1. proto_reach x a ph1"
  by (cases b) (auto dest: reach_split)

section \<open>Runs and paths\<close>

text \<open>Against the server that plays a path back, a run goes along the whole path.\<close>

lemma script_played:
  fixes p :: "call list HybridProvisioner"
  assumes "wf_provisioner p" and "chosen_class p opts = Some sc" and "opt_SelectedNode opts = Some n"
    and tr: "proto_reach (protocol_of p opts sc n) tr end_phase" and "patient tr"
  shows "\<exists>rest. provision_calls (p\<lparr>hp_client := script_client\<rparr>) opts \<lparr>env = tr, calls = []\<rparr> = tr @ rest"
proof -
  let ?p = "p\<lparr>hp_client := script_client\<rparr>" and ?w = "\<lparr>env = tr, calls = []\<rparr>" and ?x = "protocol_of p opts sc n"
  from assms(1) script_contract have wf: "wf_provisioner ?p" "backoff_contract (hp_client ?p)" by simp_all
  obtain r0 w' where run: "run_state (Provision ?p opts) ?w = (r0, w')" by (metis prod.exhaust)
  from wf show ?thesis
  proof (cases rule: Provision_cases [of ?p opts ?w])
    case idle
    with assms(2) show ?thesis by simp
  next
    case (ran sc' n' ph r)
    let ?lg = "provision_calls ?p opts ?w"
    from ran(1-4) assms(2,3) have lg: "proto_reach ?x ?lg ph" and out: "run_outcome ?x r ph" by simp_all
    from Provision_served(2) [OF wf run] have "served script_client tr ?lg (env w')" by simp
    from script_follows [OF tr this lg] show ?thesis
    proof
      assume follow: "tr = ?lg @ env w'"
      show ?thesis
      proof (cases "env w'")
        case Nil
        with follow show ?thesis by (intro exI [where x = "[]"]) simp
      next
        case (Cons c rest)
        with follow tr assms(5) have longer: "proto_reach ?x (?lg @ c # rest) end_phase" "patient (?lg @ c # rest)"
          by metis+
        from reach_split [OF longer(1)] obtain ph1 ph2 where "proto_reach ?x ?lg ph1" "proto_step ?x ph1 c ph2" by blast
        with reach_deterministic [OF lg] have "proto_step ?x ph c ph2" by simp
        with stop_is_final [OF out ran(6) longer(2)] show ?thesis by blast
      qed
    qed auto
  qed
qed

lemma runs_are_paths:
  fixes p :: "call list HybridProvisioner"
  assumes "wf_provisioner p" and "chosen_class p opts = Some sc" and "opt_SelectedNode opts = Some n"
  shows "(\<exists>c w rest. backoff_contract c \<and> provision_calls (p\<lparr>hp_client := c\<rparr>) opts w = tr @ rest) \<longleftrightarrow>
     (\<exists>ph. proto_reach (protocol_of p opts sc n) tr ph) \<and> patient tr"
proof
  assume "\<exists>c w rest. backoff_contract c \<and> provision_calls (p\<lparr>hp_client := c\<rparr>) opts w = tr @ rest"
  then obtain c w rest where c: "backoff_contract c" and calls: "provision_calls (p\<lparr>hp_client := c\<rparr>) opts w = tr @ rest" by blast
  from assms(1) c have wf: "wf_provisioner (p\<lparr>hp_client := c\<rparr>)" "backoff_contract (hp_client (p\<lparr>hp_client := c\<rparr>))" by simp_all
  from Provision_patient [OF wf, of opts w] calls have "patient tr" by (auto dest: patient_appendD)
  moreover have "\<exists>ph. proto_reach (protocol_of p opts sc n) (tr @ rest) ph"
    using wf by (rule Provision_cases [of "p\<lparr>hp_client := c\<rparr>" opts w]) (use assms(2,3) calls in auto)
  ultimately show "(\<exists>ph. proto_reach (protocol_of p opts sc n) tr ph) \<and> patient tr" using reach_prefix by blast
next
  assume "(\<exists>ph. proto_reach (protocol_of p opts sc n) tr ph) \<and> patient tr"
  with script_played [OF assms] script_contract
  show "\<exists>c w rest. backoff_contract c \<and> provision_calls (p\<lparr>hp_client := c\<rparr>) opts w = tr @ rest" by blast
qed

section \<open>Properties\<close>

text \<open>
  C11: the protocol describes the runs of \<^verbatim>\<open>Provision\<close> exactly. Once a class is chosen, a log of calls
  with their answers is the beginning of a run against some API server if and only if it is a path of
  the protocol that asks for each of the two deletions at most five times: the code makes no other
  calls, and it makes every call of the protocol if the answers lead there.
\<close>

theorem Provision_exact:
  fixes p :: "call list HybridProvisioner"
  assumes "wf_provisioner p" and "chosen_class p opts = Some sc" and "opt_SelectedNode opts = Some n"
  shows "(\<exists>c w rest. backoff_contract c \<and> provision_calls (p\<lparr>hp_client := c\<rparr>) opts w = tr @ rest) \<longleftrightarrow>
     (\<exists>ph. proto_reach (protocol_of p opts sc n) tr ph) \<and> patient tr"
  using assms by (rule runs_are_paths)

text \<open>The log of the sample run, played back.\<close>

theorem Provision_exact_witness:
  "\<exists>c w rest. backoff_contract c \<and>
     provision_calls ((sample_provisioner script_client ''auto'')\<lparr>hp_client := c\<rparr>) sample_opts w = sample_calls @ rest"
proof -
  let ?p = "sample_provisioner sample_client ''auto''"
  have same: "protocol_of ?p opts sc n = protocol_of (sample_provisioner script_client ''auto'') opts sc n" for opts sc n
    by (simp add: protocol_of_def creation_kind_def sample_provisioner_def NewProvisioner_def)
  have "\<exists>n ph. opt_SelectedNode sample_opts = Some n \<and>
      proto_reach (protocol_of (sample_provisioner script_client ''auto'') sample_opts proxmox_class n) sample_calls ph"
    using sample_ok by (rule Provision_cases [of ?p sample_opts sample_world])
      (auto simp: sample_chosen sample_provision same)
  then obtain n ph where n: "opt_SelectedNode sample_opts = Some n"
    and path: "proto_reach (protocol_of (sample_provisioner script_client ''auto'') sample_opts proxmox_class n) sample_calls ph"
    by blast
  have "patient sample_calls" by (simp add: patient_def sample_calls_def)
  with path Provision_exact [OF wf_sample_provisioner sample_chosen n] show ?thesis by blast
qed

end
