(* ===== verification/Adoption.thy ===== *)
theory Adoption
  imports Exactness AttemptsClaim
begin

text \<open>
  The backing claim an earlier attempt has left: \<^verbatim>\<open>Provision\<close> takes whatever claim the cache holds under
  the name of the volume and never looks at it. If another class is chosen by then, the user's claim is
  marked with that class although the volume comes from the old one.
\<close>

section \<open>The first call of a path\<close>

text \<open>Two calls that lead to the same phases can be exchanged at the beginning of every path.\<close>

lemma reach_Nil [simp]: "proto_reach x [] ph \<longleftrightarrow> ph = Start"
  by (auto elim: proto_reach.cases intro: reach_start)

lemma reach_snoc: "proto_reach x (tr @ [c]) ph \<longleftrightarrow> (\<exists>ph0. proto_reach x tr ph0 \<and> proto_step x ph0 c ph)"
  by (auto elim: proto_reach.cases intro: reach_step)

lemma reach_single: "proto_reach x [c] ph \<longleftrightarrow> proto_step x Start c ph"
  using reach_snoc [of x "[]" c ph] by simp

lemma reach_exchange:
  assumes "\<And>ph. proto_step x Start c ph \<longleftrightarrow> proto_step x Start d ph"
  shows "proto_reach x (c # tr) ph \<longleftrightarrow> proto_reach x (d # tr) ph"
proof (induction tr arbitrary: ph rule: rev_induct)
  case Nil
  then show ?case by (simp add: reach_single assms)
next
  case (snoc k tr)
  then show ?case using reach_snoc [of x "c # tr" k ph] reach_snoc [of x "d # tr" k ph] by simp
qed

lemma cached_step:
  "proto_step x Start (ListerGetPVC ns name (Inr claim)) ph \<longleftrightarrow> ns = wanted_ns x \<and> name = wanted_name x \<and> ph = Requested"
  by (auto elim: proto_step.cases intro: proto_step.intros)

section \<open>Properties\<close>

text \<open>
  C12: the claim in the cache is taken unseen. A log that begins with the cache answering with some
  claim is the beginning of a run exactly when the same log with any other claim in its place is: its
  class, its node, its size and its phase make no difference to what \<^verbatim>\<open>Provision\<close> does next.
\<close>

theorem Provision_trusts_cache:
  fixes p :: "call list HybridProvisioner"
  assumes "wf_provisioner p" and "chosen_class p opts = Some sc" and "opt_SelectedNode opts = Some n"
  shows "(\<exists>c w rest. backoff_contract c \<and>
        provision_calls (p\<lparr>hp_client := c\<rparr>) opts w = ListerGetPVC ns name (Inr claim) # tr @ rest) \<longleftrightarrow>
     (\<exists>c w rest. backoff_contract c \<and>
        provision_calls (p\<lparr>hp_client := c\<rparr>) opts w = ListerGetPVC ns name (Inr claim') # tr @ rest)"
proof -
  let ?x = "protocol_of p opts sc n"
  have "proto_reach ?x (ListerGetPVC ns name (Inr claim) # tr) ph \<longleftrightarrow> proto_reach ?x (ListerGetPVC ns name (Inr claim') # tr) ph" for ph
    by (rule reach_exchange) (simp add: cached_step)
  moreover have "patient (ListerGetPVC ns name (Inr claim) # tr) \<longleftrightarrow> patient (ListerGetPVC ns name (Inr claim') # tr)"
    by (simp add: patient_def)
  ultimately show ?thesis
    using runs_are_paths [OF assms, of "ListerGetPVC ns name (Inr claim) # tr"]
      runs_are_paths [OF assms, of "ListerGetPVC ns name (Inr claim') # tr"] by simp
qed

section \<open>A node that goes away\<close>

text \<open>
  The first attempt creates the backing claim with the class \<open>proxmox\<close> and does not see it bound in
  time; then the node is gone and another one is selected, on which only \<open>hcloud-volumes\<close> fits. The
  state of the environment counts: 0 at first, 1 once the claim is there, 2 after the first watch.
\<close>

definition first_claim :: pvc where
  "first_claim = annotated_pvc sample_opts proxmox_class sample_node"

definition slow_client :: "nat client" where
  "slow_client = calm_client
     \<lparr>cl_ListerGetPVC := (\<lambda>ns name e. (if e = 0 then Inl (NotFound ''not in cache'') else Inr first_claim, e)),
      cl_CreatePVC := (\<lambda>ns c e. (Inr c, 1)),
      cl_WatchPVC := (\<lambda>ns sel e. (Inr (if e < 2 then TimerFired else sample_events), 2))\<rparr>"

definition other_node :: node where
  "other_node = \<lparr>node_name = ''node-2'', node_Labels = Map.empty, node_Unschedulable = False\<rparr>"

definition other_csi_node :: csi_node where
  "other_csi_node = \<lparr>csin_name = ''node-2'', csin_Drivers =
     [\<lparr>drv_name = ''csi.hetzner.cloud'', drv_NodeID = ''id-2'', drv_TopologyKeys = []\<rparr>]\<rparr>"

definition late_provisioner :: "nat HybridProvisioner" where
  "late_provisioner = (sample_provisioner slow_client ''auto'')
     \<lparr>hp_csiNodeLister := (\<lambda>name. if name = ''node-2'' then Inr (Some other_csi_node) else Inl (NotFound ''csinode not found''))\<rparr>"

definition late_opts :: ProvisionOptions where
  "late_opts = sample_opts\<lparr>opt_SelectedNode := Some other_node\<rparr>"

definition moved_attempts :: "nat attempt list" where
  "moved_attempts =
     [\<lparr>at_provisioner = sample_provisioner slow_client ''auto'', at_options = sample_opts\<rparr>,
      \<lparr>at_provisioner = late_provisioner, at_options = sample_opts\<rparr>,
      \<lparr>at_provisioner = late_provisioner, at_options = late_opts\<rparr>]"

definition moved_world :: "nat world" where
  "moved_world = \<lparr>env = 0, calls = []\<rparr>"

definition moved_calls :: "call list" where
  "moved_calls =
     [ListerGetPVC ''default'' ''pvc-1'' (Inl (NotFound ''not in cache'')),
      CreatePVC ''default'' first_claim (Inr first_claim),
      WatchPVC ''default'' (name_selector ''pvc-1'') (Inr TimerFired),
      ListerGetPVC ''default'' ''pvc-1'' (Inr first_claim),
      WatchPVC ''default'' (name_selector ''pvc-1'') (Inr sample_events),
      PatchPV ''pv-1'' retain_patch (Inr sample_pv),
      PatchPVC ''default'' ''pvc-1'' protection_dropped (Inr sample_claim),
      DeletePVC ''default'' ''pvc-1'' (Some ''Foreground'') None,
      PatchPV ''pv-1'' unclaim_patch (Inr sample_pv),
      PatchPVC ''default'' ''storage-test-0'' (bond_patch hcloud_class ''pv-1'') (Inr sample_claim)]"

lemma late_provisioner_sel [simp]:
  "hp_client late_provisioner = slow_client" "hp_driverLister late_provisioner = sample_drivers"
  "hp_scLister late_provisioner = sample_classes" "hp_backoff late_provisioner = hp_backoff (sample_provisioner slow_client ''auto'')"
  "hp_method late_provisioner = hp_method (sample_provisioner slow_client ''auto'')"
  by (simp_all add: late_provisioner_def)

lemma late_wf: "wf_provisioner late_provisioner"
  using wf_sample_provisioner [of slow_client "''auto''"] by (simp add: wf_provisioner_def)

lemma late_sel [simp]:
  "hp_csiNodeLister late_provisioner ''node-2'' = Inr (Some other_csi_node)"
  "hp_csiNodeLister late_provisioner ''node-1'' = Inl (NotFound ''csinode not found'')"
  "node_name other_node = ''node-2''" "opt_SelectedNode late_opts = Some other_node"
  "opt_PVC late_opts = user_claim" "opt_PVName late_opts = ''pvc-1''" "opt_StorageClass late_opts = Some hybrid_class"
  by (simp_all add: late_provisioner_def other_node_def late_opts_def sample_opts_def)

lemma late_chosen: "chosen_class late_provisioner late_opts = Some hcloud_class"
proof -
  have cache: "cache_ok late_provisioner [''proxmox'', ''hcloud-volumes'']"
    by (simp add: sample_classes_def proxmox_class_def hcloud_class_def sample_topologies_ok(1) valid_topologies_Nil)
  have "\<not> fits_node late_provisioner other_csi_node other_node proxmox_class"
    by (simp add: fits_node_def proxmox_class_def not_csi_driver_def sample_drivers_def other_csi_node_def)
  moreover have "fits_node late_provisioner other_csi_node other_node hcloud_class"
    by (simp add: fits_node_def hcloud_class_def other_csi_node_def)
  ultimately have "class_loop late_provisioner other_csi_node other_node [''proxmox'', ''hcloud-volumes''] = Done (Inr hcloud_class)"
    unfolding class_loop_first [OF cache] by (simp add: first_eligible_def stored_class_def sample_classes_def)
  moreover have "requested_classes late_opts = Some [''proxmox'', ''hcloud-volumes'']"
    using sample_requested by (simp add: requested_classes_def sample_opts_def)
  ultimately show ?thesis by (simp add: chosen_class_def getStorageClassFromNode_def)
qed

lemma slow_retry: "cl_ExponentialBackoff slow_client = (\<lambda>b cond. retry (nat (bo_Steps b)) cond)"
  by (simp add: slow_client_def calm_client_def)

text \<open>The three attempts one by one.\<close>

lemma moved_first:
  "run_state (Provision (sample_provisioner slow_client ''auto'') sample_opts) moved_world =
     (Provisioned None ProvisioningFinished (Some (bind_timeout ''pvc-1'')), \<lparr>env = 2, calls = take 3 moved_calls\<rparr>)"
  unfolding sample_unfolds
  by (simp add: slow_client_def calm_client_def moved_world_def moved_calls_def IsNotFound_def first_claim_def provision_result_of_def)

lemma moved_second:
  "run_state (Provision late_provisioner sample_opts) w =
     (Provisioned None ProvisioningReschedule (Some (Wrapf ''error getting CSINode for selected node %q: %v'' [''node-1'']
        (ApiErr (NotFound ''csinode not found'')))), w)"
  by (simp add: Provision_def getStorageClassFromNode_def sample_opts_def hybrid_class_def sample_node_name)

lemma moved_third:
  "run_state (Provision late_provisioner late_opts) \<lparr>env = 2, calls = cs\<rparr> =
     (Provisioned (Some released_pv) ProvisioningFinished None, \<lparr>env = 2, calls = cs @ drop 3 moved_calls\<rparr>)"
proof -
  have kind: "creation_kind late_provisioner = ByAnnotation"
    by (simp add: creation_kind_def sample_provisioner_def NewProvisioner_def methodDefault_def methodPod_def)
  have request: "pvc_Name (annotated_pvc late_opts hcloud_class other_node) = ''pvc-1''"
    "pvc_Namespace (annotated_pvc late_opts hcloud_class other_node) = ''default''"
    by (simp_all add: annotated_pvc_def requested_pvc_def user_claim_def)
  have policy: "sc_ReclaimPolicy hcloud_class \<noteq> Some ''Delete''" by (simp add: hcloud_class_def)
  have steps: "cl_ExponentialBackoff slow_client (hp_backoff (sample_provisioner slow_client ''auto'')) cond = retry 5 cond" for cond
    by (rule sample_retry [OF slow_retry])
  show ?thesis
    unfolding Provision_chosen [OF late_wf late_chosen] kind createPVbyAnnotation_def late_sel option.case Let_def
      ensure_pvc_def waitBindPVC_def release_and_bond_def releasePV_def bondPVC_def try_delete_pvc_def request call_defs
    by (simp add: steps)
      (simp add: slow_client_def calm_client_def policy sample_values sample_opts_sel moved_calls_def)
qed

text \<open>
  The only claim ever created has the class \<open>proxmox\<close>, which reclaims by Delete. Yet the request ends with a
  volume, the user's claim is marked for the provisioner of \<open>hcloud-volumes\<close>, and since that class
  retains its volumes nobody will ever delete this one.
\<close>

lemma moved_request: "at_request slow_client sample_opts moved_attempts"
proof -
  have "backoff_contract slow_client" by (rule retry_contract) (rule slow_retry)
  then show ?thesis
    by (simp add: at_request_def moved_attempts_def wf_sample_provisioner late_wf same_request_def late_opts_def)
qed

lemma moved_outcome:
  "attempt_calls moved_attempts moved_world = moved_calls"
  "last (attempt_results moved_attempts moved_world) = Provisioned (Some released_pv) ProvisioningFinished None"
  "class_of (last_attempt moved_attempts moved_world) = Some hcloud_class"
  "pvc_StorageClassName first_claim = Some (sc_Name proxmox_class)"
proof -
  have run: "run_state (attempts moved_attempts) moved_world =
      ([Provisioned None ProvisioningFinished (Some (bind_timeout ''pvc-1'')),
        Provisioned None ProvisioningReschedule (Some (Wrapf ''error getting CSINode for selected node %q: %v'' [''node-1'']
          (ApiErr (NotFound ''csinode not found'')))),
        Provisioned (Some released_pv) ProvisioningFinished None], \<lparr>env = 2, calls = moved_calls\<rparr>)"
    by (simp add: moved_attempts_def moved_first moved_second moved_third retriable_def)
  then show "attempt_calls moved_attempts moved_world = moved_calls"
    and "last (attempt_results moved_attempts moved_world) = Provisioned (Some released_pv) ProvisioningFinished None"
    by (simp_all add: attempt_calls_def attempt_results_def moved_world_def)
  show "class_of (last_attempt moved_attempts moved_world) = Some hcloud_class"
    by (simp add: moved_attempts_def provision_returns_def next_world_def moved_first moved_second retriable_def late_chosen)
  show "pvc_StorageClassName first_claim = Some (sc_Name proxmox_class)"
    by (simp add: first_claim_def annotated_pvc_def requested_pvc_def)
qed

lemma moved_marks:
  "field_at (user_claim_after sample_marshal sample_opts moved_calls user_document)
     [''metadata'', ''annotations'', ''volume.kubernetes.io/storage-provisioner''] = Some (JString ''csi.hetzner.cloud'')"
proof -
  have "unescaped (sc_Provisioner proxmox_class)" "unescaped (sc_Provisioner hcloud_class)" "unescaped ''pv-1''" by code_simp+
  moreover have "chosen_class late_provisioner sample_opts = None"
    by (simp add: chosen_class_def sample_requested getStorageClassFromNode_def sample_opts_sel sample_node_name)
  ultimately have plain: "plain_attempts moved_attempts moved_calls"
    unfolding plain_attempts_def moved_attempts_def moved_calls_def by (auto simp: sample_chosen late_chosen sample_pv_def)
  have honest: "honest moved_calls"
    using sample_honest by (simp add: sample_calls_def moved_calls_def)
  have name: "opt_PVName sample_opts \<noteq> pvc_Name (opt_PVC sample_opts)" by (simp add: sample_opts_sel)
  have some: "moved_attempts \<noteq> []" by (simp add: moved_attempts_def)
  have doc: "claim_document user_document" by code_simp
  from attempts_claims [OF moved_request sample_marshal_contract name some _ _ doc, of moved_world] honest plain
  show ?thesis
    unfolding moved_outcome(1,2) by (simp add: claim_outcome_def moved_outcome(3) bonded_def hcloud_class_def del: field_at.simps)
qed

text \<open>The claim of the first attempt, and one of any other class in its place.\<close>

theorem Provision_trusts_cache_witness:
  "\<exists>c w rest. backoff_contract c \<and>
     provision_calls ((sample_provisioner script_client ''auto'')\<lparr>hp_client := c\<rparr>) sample_opts w =
       ListerGetPVC ''default'' ''pvc-1'' (Inr (first_claim\<lparr>pvc_StorageClassName := Some ''hcloud-volumes''\<rparr>)) # [] @ rest"
proof -
  let ?p = "sample_provisioner script_client ''auto''" and ?log = "[ListerGetPVC ''default'' ''pvc-1'' (Inr first_claim)]"
  have "proto_reach (protocol_of ?p sample_opts proxmox_class sample_node) ?log Requested"
    by (simp add: reach_single cached_step wanted_ns_def wanted_name_def sample_opts_sel)
  moreover have "patient ?log" by (simp add: patient_def)
  ultimately have "\<exists>c w rest. backoff_contract c \<and>
      provision_calls (?p\<lparr>hp_client := c\<rparr>) sample_opts w = ListerGetPVC ''default'' ''pvc-1'' (Inr first_claim) # [] @ rest"
    using runs_are_paths [OF wf_sample_provisioner sample_chosen sample_opts_sel(1), of script_client "''auto''" ?log] by auto
  then show ?thesis
    using Provision_trusts_cache [OF wf_sample_provisioner sample_chosen sample_opts_sel(1)] by blast
qed

end
