(* ===== verification/TopologyOrder.thy ===== *)
theory TopologyOrder
  imports Topology
begin

text \<open>
  Segments as a linear order of the library, and with it terms as lists under the lexicographic order:
  the comparison functions of \<^verbatim>\<open>topology.go\<close> are that order, and its \<^verbatim>\<open>sort\<close> is the library's.
\<close>

section \<open>Segments in order\<close>

text \<open>Key first, then value; what an extension of the record adds comes last.\<close>

instantiation topologySegment_ext :: (linorder) linorder
begin

definition less_eq_topologySegment_ext :: "'a topologySegment_scheme \<Rightarrow> 'a topologySegment_scheme \<Rightarrow> bool" where
  "less_eq_topologySegment_ext a b \<longleftrightarrow>
     Key a < Key b \<or> Key a = Key b \<and>
       (Val a < Val b \<or> Val a = Val b \<and> topologySegment.more a \<le> topologySegment.more b)"

definition less_topologySegment_ext :: "'a topologySegment_scheme \<Rightarrow> 'a topologySegment_scheme \<Rightarrow> bool" where
  "less_topologySegment_ext a b \<longleftrightarrow>
     Key a < Key b \<or> Key a = Key b \<and>
       (Val a < Val b \<or> Val a = Val b \<and> topologySegment.more a < topologySegment.more b)"

instance
  by intro_classes
    (auto simp: less_eq_topologySegment_ext_def less_topologySegment_ext_def intro: topologySegment.equality)

end

lemma segment_less: "(a :: topologySegment) < b \<longleftrightarrow> Key a < Key b \<or> Key a = Key b \<and> Val a < Val b"
  by (simp add: less_topologySegment_ext_def)

lemma segment_cmp_sign:
  "segment_cmp a b < 0 \<longleftrightarrow> a < b" "segment_cmp a b = 0 \<longleftrightarrow> a = b" "0 < segment_cmp a b \<longleftrightarrow> b < a"
  "segment_cmp a b \<le> 0 \<longleftrightarrow> a \<le> b"
proof -
  show lt: "segment_cmp a b < 0 \<longleftrightarrow> a < b" for a b
    by (auto simp: segment_cmp_def Let_def segment_less)
  then show "0 < segment_cmp a b \<longleftrightarrow> b < a" using segments.cmp_flip [of b a] by simp
  show "segment_cmp a b = 0 \<longleftrightarrow> a = b" by (rule segments.cmp_zero)
  with lt [of a b] show "segment_cmp a b \<le> 0 \<longleftrightarrow> a \<le> b" by (auto simp: le_less)
qed

text \<open>The order on terms: shorter terms first, terms of one length lexicographically.\<close>

lemma lex_cmp_sign: "length t = length u \<Longrightarrow> lex_cmp t u < 0 \<longleftrightarrow> t < u"
  by (induction t u rule: list_induct2) (auto simp: segment_cmp_sign)

lemma term_sort_sort: "term_sort t = sort t"
  unfolding term_sort_def
  by (rule segments.SortFunc_unique [symmetric]) (simp_all add: segment_cmp_sign)

section \<open>Terms from maps\<close>

text \<open>The term a map of segments stands for: its keys in order, each with its value.\<close>

definition segments_term :: "(string \<rightharpoonup> string) \<Rightarrow> topologyTerm" where
  "segments_term m = map (\<lambda>k. seg k (the (m k))) (sorted_list_of_set (dom m))"

lemma sorted_segments_term: "sorted (segments_term m)"
proof -
  have "sorted_wrt (<) (sorted_list_of_set (dom m))" by simp
  then have "sorted_wrt (\<lambda>k l. seg k (the (m k)) \<le> seg l (the (m l))) (sorted_list_of_set (dom m))"
    by (rule sorted_wrt_mono_rel [rotated]) (simp add: less_eq_topologySegment_ext_def)
  then show ?thesis by (simp add: segments_term_def sorted_wrt_map)
qed

lemma segments_term_segments:
  assumes "distinct (map Key t)"
  shows "segments_term (term_segments t) = sort t"
proof -
  have pairs: "term_segments t k = Some v \<longleftrightarrow> seg k v \<in> set t" for k v
    by (rule term_segments_iff [OF assms])
  have self: "seg (Key a) (Val a) = a" for a :: topologySegment by (cases a) simp
  have "dom (term_segments t) = Key ` set t"
  proof (intro equalityI subsetI)
    fix k assume "k \<in> dom (term_segments t)"
    then obtain v where "seg k v \<in> set t" using pairs by blast
    then show "k \<in> Key ` set t" by force
  next
    fix k assume "k \<in> Key ` set t"
    then obtain a where "a \<in> set t" "k = Key a" by blast
    with self [of a] have "seg k (Val a) \<in> set t" by metis
    then show "k \<in> dom (term_segments t)" using pairs by blast
  qed
  then have fin: "finite (dom (term_segments t))" by simp
  have "set (segments_term (term_segments t)) = {seg k v |k v. term_segments t k = Some v}"
    using fin by (force simp: segments_term_def)
  also have "\<dots> = set t" unfolding pairs using self by (auto, metis)
  finally have same: "set (segments_term (term_segments t)) = set (sort t)" by simp
  have "distinct (segments_term (term_segments t))"
    by (simp add: segments_term_def distinct_map inj_on_def)
  moreover have "distinct (sort t)" using assms by (simp add: distinct_map)
  ultimately show ?thesis
    using same sorted_segments_term by (intro sorted_distinct_set_unique) simp_all
qed

section \<open>Properties\<close>

text \<open>
  C30: every term the code builds is in order: those of the allowed topologies and the one of a node are
  sorted, as \<^verbatim>\<open>compare\<close> and \<^verbatim>\<open>subset\<close> take for granted, and \<^verbatim>\<open>sort\<close> is the sorting function of the
  library for the order by key and value.
\<close>

theorem terms_sorted:
  "list_all sorted (flatten ts) \<and> sorted (fst (getTopologyFromNode n keys)) \<and> term_sort t = sort t"
proof -
  note sort = term_sort_sort
  then have "list_all sorted (flatten ts)"
    by (auto simp: flatten_def list_all_iff)
  moreover have "sorted (fst (getTopologyFromNode n keys))"
    by (simp add: getTopologyFromNode_def sort split: option.split)
  ultimately show ?thesis using sort by blast
qed

text \<open>
  C31: \<^verbatim>\<open>compare\<close> never indexes out of range and is the order by length and then, segment by segment,
  by key and value: negative, zero or positive as the first term is less, equal or greater.
\<close>

theorem compare_is_order:
  "\<exists>r. term_compare t u = Done r \<and>
     (r < 0 \<longleftrightarrow> length t < length u \<or> length t = length u \<and> t < u) \<and>
     (r = 0 \<longleftrightarrow> t = u) \<and>
     (0 < r \<longleftrightarrow> length u < length t \<or> length t = length u \<and> u < t)"
proof -
  have "cmp_terms t u < 0 \<longleftrightarrow> length t < length u \<or> length t = length u \<and> t < u" for t u
    by (auto simp: cmp_terms_def lex_cmp_sign)
  then show ?thesis
    using term_compare_cmp [of t u] terms.cmp_zero [of t u] terms.cmp_flip [of u t] by auto
qed

text \<open>
  C28: a CSI topology loses nothing of the terms it is made from, when no term has a key twice: the
  segments of each of its maps, in the order of their keys, are the sorted term again.
\<close>

theorem toCSITopology_roundtrip:
  assumes "\<forall>t\<in>set ts. distinct (map Key t)"
  shows "map segments_term (toCSITopology ts) = map term_sort ts"
  using assms by (simp add: toCSITopology_def term_sort_sort segments_term_segments)

theorem toCSITopology_roundtrip_witness:
  "map segments_term (toCSITopology [[seg zone_key ''pve-3'', seg region_key ''r1''], []]) =
     [term_sort [seg zone_key ''pve-3'', seg region_key ''r1''], term_sort []]"
  using toCSITopology_roundtrip [of "[[seg zone_key ''pve-3'', seg region_key ''r1''], []]"]
  by (simp add: zone_key_def region_key_def)

end
