(* ===== verification/Selects.thy ===== *)
theory Selects
  imports WatchLoop
begin

text \<open>
  The two waiting loops without the assumption that they end: the choices of the select are an
  infinite sequence, and a loop is a partial function whose value \<open>None\<close> stands for a loop that
  never returns. The locale \<open>select_loop\<close> proves once when such a loop returns and that its result
  is the one of the finite model in \<open>WatchLoop\<close>.
\<close>

section \<open>The loops\<close>

datatype 'ev choice = Event 'ev | Closed | Timer

partial_function (option) waitBind_select ::
  "string \<Rightarrow> (nat \<Rightarrow> pvc watch_event choice) \<Rightarrow> nat \<Rightarrow> (go_error + pvc) option" where
  "waitBind_select name ch i =
     (case ch i of
        Closed \<Rightarrow> Some (Inl channel_closed)
      | Timer \<Rightarrow> Some (Inl (bind_timeout name))
      | Event event \<Rightarrow>
          if ev_Type event = Modified then
            (case ev_Object event of
               Some obj \<Rightarrow> if pvc_Phase obj = ClaimBound then Some (Inr obj) else waitBind_select name ch (Suc i)
             | None \<Rightarrow> waitBind_select name ch (Suc i))
          else waitBind_select name ch (Suc i))"

partial_function (option) waitDelete_select ::
  "string \<Rightarrow> (nat \<Rightarrow> pv watch_event choice) \<Rightarrow> nat \<Rightarrow> (go_error + unit) option" where
  "waitDelete_select name ch i =
     (case ch i of
        Closed \<Rightarrow> Some (Inl channel_closed)
      | Timer \<Rightarrow> Some (Inl (delete_timeout name))
      | Event event \<Rightarrow>
          if ev_Type event = Deleted then Some (Inr ()) else waitDelete_select name ch (Suc i))"

section \<open>The shared contract\<close>

text \<open>What one choice decides, if anything, for the events a loop accepts.\<close>

fun verdict :: "('ev \<Rightarrow> 'r option) \<Rightarrow> go_error \<Rightarrow> 'ev choice \<Rightarrow> (go_error + 'r) option" where
  "verdict accept timed_out Closed = Some (Inl channel_closed)"
| "verdict accept timed_out Timer = Some (Inl timed_out)"
| "verdict accept timed_out (Event e) = map_option Inr (accept e)"

text \<open>The finite run of \<open>n\<close> choices from \<open>i\<close>; it ends early on a closed channel or the timer.\<close>

fun run_of :: "(nat \<Rightarrow> 'ev choice) \<Rightarrow> nat \<Rightarrow> nat \<Rightarrow> 'ev select_run" where
  "run_of ch i 0 = TimerFired"
| "run_of ch i (Suc n) =
     (case ch i of Event e \<Rightarrow> Recv e (run_of ch (Suc i) n) | Closed \<Rightarrow> ChanClosed | Timer \<Rightarrow> TimerFired)"

locale select_loop = event_loop loop accept timed_out
  for loop :: "'ev select_run \<Rightarrow> go_error + 'r" and accept and timed_out +
  fixes sel :: "(nat \<Rightarrow> 'ev choice) \<Rightarrow> nat \<Rightarrow> (go_error + 'r) option"
  assumes sel_unfold: "sel ch i =
      (case verdict accept timed_out (ch i) of Some r \<Rightarrow> Some r | None \<Rightarrow> sel ch (Suc i))"
    and sel_returns: "sel ch i = Some r \<Longrightarrow> \<exists>k\<ge>i. verdict accept timed_out (ch k) \<noteq> None"
begin

lemma sel_skip:
  "(\<And>j. i \<le> j \<Longrightarrow> j < k \<Longrightarrow> verdict accept timed_out (ch j) = None) \<Longrightarrow> i \<le> k \<Longrightarrow> sel ch i = sel ch k"
proof (induction "k - i" arbitrary: i)
  case 0
  then show ?case by simp
next
  case (Suc n)
  then have "sel ch i = sel ch (Suc i)" by (subst sel_unfold) simp
  also have "\<dots> = sel ch k" using Suc by (intro Suc(1)) auto
  finally show ?case .
qed

lemma sel_first:
  assumes "i \<le> k" and "verdict accept timed_out (ch k) = Some r"
    and "\<And>j. i \<le> j \<Longrightarrow> j < k \<Longrightarrow> verdict accept timed_out (ch j) = None"
  shows "sel ch i = Some r"
proof -
  have "sel ch i = sel ch k" using assms by (intro sel_skip)
  with assms(2) show ?thesis by (simp add: sel_unfold [of ch k])
qed

lemma sel_iff:
  "sel ch i = Some r \<longleftrightarrow>
     (\<exists>k\<ge>i. verdict accept timed_out (ch k) = Some r \<and> (\<forall>j. i \<le> j \<and> j < k \<longrightarrow> verdict accept timed_out (ch j) = None))"
proof
  assume ret: "sel ch i = Some r"
  let ?P = "\<lambda>k. i \<le> k \<and> verdict accept timed_out (ch k) \<noteq> None"
  define k where "k = (LEAST k. ?P k)"
  have "?P k" unfolding k_def using sel_returns [OF ret] by (rule LeastI_ex [of ?P, OF exE]) blast
  then have k: "i \<le> k" "verdict accept timed_out (ch k) \<noteq> None" by simp_all
  have none: "verdict accept timed_out (ch j) = None" if "i \<le> j" "j < k" for j
    using that not_less_Least [of j ?P] by (simp add: k_def)
  from k(2) obtain r' where r': "verdict accept timed_out (ch k) = Some r'" by blast
  have "sel ch i = Some r'" using k(1) r' none by (rule sel_first)
  with ret r' k(1) none show "\<exists>k\<ge>i. verdict accept timed_out (ch k) = Some r \<and>
      (\<forall>j. i \<le> j \<and> j < k \<longrightarrow> verdict accept timed_out (ch j) = None)" by (intro exI [of _ k]) simp
next
  assume "\<exists>k\<ge>i. verdict accept timed_out (ch k) = Some r \<and>
      (\<forall>j. i \<le> j \<and> j < k \<longrightarrow> verdict accept timed_out (ch j) = None)"
  then show "sel ch i = Some r" using sel_first by blast
qed

lemma sel_terminates: "sel ch i \<noteq> None \<longleftrightarrow> (\<exists>k\<ge>i. verdict accept timed_out (ch k) \<noteq> None)"
proof
  assume "sel ch i \<noteq> None"
  then show "\<exists>k\<ge>i. verdict accept timed_out (ch k) \<noteq> None" using sel_returns by blast
next
  assume "\<exists>k\<ge>i. verdict accept timed_out (ch k) \<noteq> None"
  then obtain k where "k \<ge> i" "verdict accept timed_out (ch k) \<noteq> None" by blast
  then show "sel ch i \<noteq> None"
  proof (induction "k - i" arbitrary: i)
    case 0
    then have "k = i" by simp
    with 0 show ?case by (subst sel_unfold) auto
  next
    case (Suc n)
    then have "sel ch (Suc i) \<noteq> None" by (intro Suc(1)) auto
    then show ?case by (subst sel_unfold) (auto split: option.split)
  qed
qed

text \<open>On the choices up to a deciding one the loop is the finite one.\<close>

lemma sel_finite:
  "k \<ge> i \<Longrightarrow> verdict accept timed_out (ch k) \<noteq> None \<Longrightarrow> sel ch i = Some (loop (run_of ch i (Suc (k - i))))"
proof (induction "k - i" arbitrary: i)
  case 0
  then have "k = i" by simp
  with 0 show ?case
    by (subst sel_unfold) (auto simp: loop_Recv loop_ChanClosed loop_TimerFired split: choice.split)
next
  case (Suc n)
  then have n: "k - Suc i = n" "Suc i \<le> k" by auto
  then have "sel ch (Suc i) = Some (loop (run_of ch (Suc i) (Suc n)))" using Suc(1) [of "Suc i"] Suc.prems by simp
  with Suc(2) show ?case
    by (subst sel_unfold)
      (auto simp: loop_Recv loop_ChanClosed loop_TimerFired simp del: run_of.simps(2)
        simp: run_of.simps(2) [of ch i] split: choice.split option.split)
qed

end

section \<open>Both loops are such loops\<close>

lemma waitBind_select_returns:
  assumes "waitBind_select name ch i = Some r"
  shows "\<exists>k\<ge>i. verdict bind_accept (bind_timeout name) (ch k) \<noteq> None"
proof (rule waitBind_select.raw_induct [where P = "\<lambda>name ch i r. \<exists>k\<ge>i. verdict bind_accept (bind_timeout name) (ch k) \<noteq> None", OF _ assms])
  fix f name ch i r
  assume IH: "\<And>name ch i r. f name ch i = Some r \<Longrightarrow> \<exists>k\<ge>i. verdict bind_accept (bind_timeout name) (ch k) \<noteq> None"
    and step: "(case ch i of
        Closed \<Rightarrow> Some (Inl channel_closed)
      | Timer \<Rightarrow> Some (Inl (bind_timeout name))
      | Event event \<Rightarrow>
          if ev_Type event = Modified then
            (case ev_Object event of
               Some obj \<Rightarrow> if pvc_Phase obj = ClaimBound then Some (Inr obj) else f name ch (Suc i)
             | None \<Rightarrow> f name ch (Suc i))
          else f name ch (Suc i)) = Some r"
  show "\<exists>k\<ge>i. verdict bind_accept (bind_timeout name) (ch k) \<noteq> None"
  proof (cases "verdict bind_accept (bind_timeout name) (ch i)")
    case None
    with step have "f name ch (Suc i) = Some r"
      by (auto simp: bind_accept_def split: choice.splits option.splits if_splits)
    from IH [OF this] show ?thesis by (meson Suc_leD)
  qed auto
qed

lemma waitDelete_select_returns:
  assumes "waitDelete_select name ch i = Some r"
  shows "\<exists>k\<ge>i. verdict delete_accept (delete_timeout name) (ch k) \<noteq> None"
proof (rule waitDelete_select.raw_induct [where P = "\<lambda>name ch i r. \<exists>k\<ge>i. verdict delete_accept (delete_timeout name) (ch k) \<noteq> None", OF _ assms])
  fix f name ch i r
  assume IH: "\<And>name ch i r. f name ch i = Some r \<Longrightarrow> \<exists>k\<ge>i. verdict delete_accept (delete_timeout name) (ch k) \<noteq> None"
    and step: "(case ch i of
        Closed \<Rightarrow> Some (Inl channel_closed)
      | Timer \<Rightarrow> Some (Inl (delete_timeout name))
      | Event event \<Rightarrow>
          if ev_Type event = Deleted then Some (Inr ()) else f name ch (Suc i)) = Some r"
  show "\<exists>k\<ge>i. verdict delete_accept (delete_timeout name) (ch k) \<noteq> None"
  proof (cases "verdict delete_accept (delete_timeout name) (ch i)")
    case None
    with step have "f name ch (Suc i) = Some r"
      by (auto simp: delete_accept_def split: choice.splits if_splits)
    from IH [OF this] show ?thesis by (meson Suc_leD)
  qed auto
qed

interpretation bind_wait: select_loop "waitBind_loop name" bind_accept "bind_timeout name" "waitBind_select name" for name
proof unfold_locales
  fix ch i
  show "waitBind_select name ch i =
      (case verdict bind_accept (bind_timeout name) (ch i) of
         Some r \<Rightarrow> Some r | None \<Rightarrow> waitBind_select name ch (Suc i))"
    by (subst waitBind_select.simps) (auto simp: bind_accept_def split: choice.split option.split)
qed (rule waitBind_select_returns)

interpretation delete_wait: select_loop "waitDelete_loop name" delete_accept "delete_timeout name" "waitDelete_select name" for name
proof unfold_locales
  fix ch i
  show "waitDelete_select name ch i =
      (case verdict delete_accept (delete_timeout name) (ch i) of
         Some r \<Rightarrow> Some r | None \<Rightarrow> waitDelete_select name ch (Suc i))"
    by (subst waitDelete_select.simps) (auto simp: delete_accept_def split: choice.split)
qed (rule waitDelete_select_returns)

section \<open>Properties\<close>

text \<open>The choices that end the wait for a binding.\<close>

fun decides :: "pvc watch_event choice \<Rightarrow> bool" where
  "decides Closed = True"
| "decides Timer = True"
| "decides (Event e) = (ev_Type e = Modified \<and> (\<exists>obj. ev_Object e = Some obj \<and> pvc_Phase obj = ClaimBound))"

lemma decides_verdict: "decides x \<longleftrightarrow> verdict bind_accept (bind_timeout name) x \<noteq> None"
  by (cases x) (auto simp: bind_accept_Some)

text \<open>
  C19: the loop of \<^verbatim>\<open>waitBindPVC\<close> over any sequence of choices of its select. If a closed channel, the timer
  or a modification to a bound claim ever comes, the loop returns, and its result is that of the finite
  model on the choices up to the first such one, that is: the error of the channel, the time-out, or that
  claim. If none comes it waits forever.
\<close>

theorem waitBind_terminates:
  "waitBind_select name ch 0 =
     (if \<exists>k. decides (ch k)
      then let k = (LEAST k. decides (ch k))
        in Some (waitBind_loop name (run_of ch 0 (Suc k)))
      else None) \<and>
   (decides (ch k) \<and> (\<forall>j<k. \<not> decides (ch j)) \<longrightarrow>
      waitBind_select name ch 0 = Some
        (case ch k of
           Closed \<Rightarrow> Inl channel_closed
         | Timer \<Rightarrow> Inl (bind_timeout name)
         | Event e \<Rightarrow> Inr (the (ev_Object e))))"
proof (rule conjI)
  show "waitBind_select name ch 0 =
     (if \<exists>k. decides (ch k) then let k = (LEAST k. decides (ch k)) in Some (waitBind_loop name (run_of ch 0 (Suc k))) else None)"
  proof (cases "\<exists>k. decides (ch k)")
    case True
    then have "decides (ch (LEAST k. decides (ch k)))" by (rule LeastI_ex)
    with True bind_wait.sel_finite [of 0 _ name ch] show ?thesis
      by (simp add: decides_verdict [where name = name] Let_def)
  next
    case False
    with bind_wait.sel_terminates [of name ch 0] show ?thesis by (auto simp: decides_verdict [where name = name])
  qed
  show "decides (ch k) \<and> (\<forall>j<k. \<not> decides (ch j)) \<longrightarrow> waitBind_select name ch 0 = Some
      (case ch k of Closed \<Rightarrow> Inl channel_closed | Timer \<Rightarrow> Inl (bind_timeout name) | Event e \<Rightarrow> Inr (the (ev_Object e)))"
  proof
    assume first: "decides (ch k) \<and> (\<forall>j<k. \<not> decides (ch j))"
    then have "verdict bind_accept (bind_timeout name) (ch k) = Some
        (case ch k of Closed \<Rightarrow> Inl channel_closed | Timer \<Rightarrow> Inl (bind_timeout name) | Event e \<Rightarrow> Inr (the (ev_Object e)))"
      by (cases "ch k") (auto simp: bind_accept_def)
    with first show "waitBind_select name ch 0 = Some
        (case ch k of Closed \<Rightarrow> Inl channel_closed | Timer \<Rightarrow> Inl (bind_timeout name) | Event e \<Rightarrow> Inr (the (ev_Object e)))"
      by (intro bind_wait.sel_first [of 0 k]) (simp_all add: decides_verdict [where name = name])
  qed
qed

text \<open>A watch that reports the claim as added, over and over, until the timer fires, if it does.\<close>

definition late_timer :: "nat \<Rightarrow> nat \<Rightarrow> pvc watch_event choice" where
  "late_timer t k = (if k = t then Timer else Event \<lparr>ev_Type = Added, ev_Object = Some sample_claim\<rparr>)"

theorem waitBind_terminates_witness:
  "waitBind_select ''pvc-1'' (late_timer 3) 0 = Some (Inl (bind_timeout ''pvc-1'')) \<and>
   waitBind_select ''pvc-1'' (\<lambda>k. late_timer 0 (Suc k)) 0 = None"
proof (rule conjI)
  have "decides (late_timer 3 3) \<and> (\<forall>j<3. \<not> decides (late_timer 3 j))" by (simp add: late_timer_def)
  from mp [OF conjunct2 [OF waitBind_terminates [of "''pvc-1''" "late_timer 3" 3]] this]
  show "waitBind_select ''pvc-1'' (late_timer 3) 0 = Some (Inl (bind_timeout ''pvc-1''))"
    by (simp add: late_timer_def)
  show "waitBind_select ''pvc-1'' (\<lambda>k. late_timer 0 (Suc k)) 0 = None"
    using waitBind_terminates [of "''pvc-1''" "\<lambda>k. late_timer 0 (Suc k)"] by (simp add: late_timer_def)
qed

text \<open>The same for \<^verbatim>\<open>PVWaitDelete\<close>: its loop returns on a closed channel, the timer or a deletion.\<close>

lemma waitDelete_terminates:
  "(waitDelete_select name ch 0 \<noteq> None \<longleftrightarrow>
     (\<exists>k. ch k = Closed \<or> ch k = Timer \<or> (\<exists>e. ch k = Event e \<and> ev_Type e = Deleted))) \<and>
   (ch t = Timer \<longrightarrow> waitDelete_select name ch 0 = Some (waitDelete_loop name (run_of ch 0 (Suc t))))"
proof (rule conjI)
  have "verdict delete_accept (delete_timeout name) x \<noteq> None \<longleftrightarrow>
      x = Closed \<or> x = Timer \<or> (\<exists>e. x = Event e \<and> ev_Type e = Deleted)" for x
    by (cases x) (auto simp: delete_accept_def)
  then show "waitDelete_select name ch 0 \<noteq> None \<longleftrightarrow>
     (\<exists>k. ch k = Closed \<or> ch k = Timer \<or> (\<exists>e. ch k = Event e \<and> ev_Type e = Deleted))"
    unfolding delete_wait.sel_terminates by simp
  show "ch t = Timer \<longrightarrow> waitDelete_select name ch 0 = Some (waitDelete_loop name (run_of ch 0 (Suc t)))"
    using delete_wait.sel_finite [of 0 t name ch] by simp
qed

end
