(* ===== verification/CsiServices.thy ===== *)
theory CsiServices
  imports Kube
begin

text \<open>
  The CSI driver of \<^verbatim>\<open>pkg/csi\<close>: the identity, controller and node services. Requests of calls whose
  handlers ignore them are left out; a gRPC error is \<^typ>\<open>go_error\<close>'s \<open>Status\<close>.
\<close>

section \<open>driver.go\<close>

definition csi_DriverName :: string where
  "csi_DriverName = ''csi.hybrid.sinextra.dev''"

definition csi_DriverVersion :: string where
  "csi_DriverVersion = ''0.1.0''"

definition DriverSpecVersion :: string where
  "DriverSpecVersion = ''1.9.0''"

definition MaxVolumesPerNode :: int where
  "MaxVolumesPerNode = 24"

definition DefaultVolumeSize :: int where
  "DefaultVolumeSize = 10"

section \<open>Identity service\<close>

record plugin_info =
  info_Name :: string
  info_VendorVersion :: string

datatype plugin_capability = CONTROLLER_SERVICE | VOLUME_ACCESSIBILITY_CONSTRAINTS

definition GetPluginInfo :: "go_error + plugin_info" where
  "GetPluginInfo = Inr \<lparr>info_Name = csi_DriverName, info_VendorVersion = csi_DriverVersion\<rparr>"

definition GetPluginCapabilities :: "go_error + plugin_capability list" where
  "GetPluginCapabilities = Inr [CONTROLLER_SERVICE, VOLUME_ACCESSIBILITY_CONSTRAINTS]"

definition Probe :: "go_error + bool" where
  "Probe = Inr True"

section \<open>Controller service\<close>

datatype controller_capability =
  CREATE_DELETE_VOLUME | PUBLISH_UNPUBLISH_VOLUME | GET_CAPACITY | EXPAND_VOLUME | GET_VOLUME
| SINGLE_NODE_MULTI_WRITER

text \<open>The remote procedures of the controller service.\<close>

datatype controller_rpc =
  CreateVolume | DeleteVolume | ControllerGetCapabilities | ControllerPublishVolume
| ControllerUnpublishVolume | ValidateVolumeCapabilities | ListVolumes | GetCapacity
| CreateSnapshot | DeleteSnapshot | ListSnapshots | ControllerExpandVolume | ControllerGetVolume
| ControllerModifyVolume

definition controllerCaps :: "controller_capability list" where
  "controllerCaps =
     [CREATE_DELETE_VOLUME, PUBLISH_UNPUBLISH_VOLUME, GET_CAPACITY, EXPAND_VOLUME, GET_VOLUME,
      SINGLE_NODE_MULTI_WRITER]"

fun wrap_caps :: "'c list \<Rightarrow> 'c list \<Rightarrow> 'c list" where
  "wrap_caps caps [] = caps"
| "wrap_caps caps (cap # rest) = wrap_caps (caps @ [cap]) rest"

text \<open>The answer of each handler; only the capabilities have one that is not an error.\<close>

fun controller_handle :: "controller_rpc \<Rightarrow> go_error + controller_capability list" where
  "controller_handle CreateVolume = Inl (Status Unimplemented [])"
| "controller_handle DeleteVolume = Inl (Status Unimplemented [])"
| "controller_handle ControllerGetCapabilities = Inr (wrap_caps [] controllerCaps)"
| "controller_handle ControllerPublishVolume = Inl (Status Unimplemented [])"
| "controller_handle ControllerUnpublishVolume = Inl (Status Unimplemented [])"
| "controller_handle ValidateVolumeCapabilities = Inl (Status Unimplemented [])"
| "controller_handle ListVolumes = Inl (Status Unimplemented [])"
| "controller_handle GetCapacity = Inl (Status Unimplemented [])"
| "controller_handle CreateSnapshot = Inl (Status Unimplemented [])"
| "controller_handle DeleteSnapshot = Inl (Status Unimplemented [])"
| "controller_handle ListSnapshots = Inl (Status Unimplemented [])"
| "controller_handle ControllerExpandVolume = Inl (Status Unimplemented [])"
| "controller_handle ControllerGetVolume = Inl (Status Unimplemented [])"
| "controller_handle ControllerModifyVolume = Inl (Status Unimplemented [])"

text \<open>The procedures a capability promises, by the CSI specification.\<close>

fun promised :: "controller_capability \<Rightarrow> controller_rpc list" where
  "promised CREATE_DELETE_VOLUME = [CreateVolume, DeleteVolume]"
| "promised PUBLISH_UNPUBLISH_VOLUME = [ControllerPublishVolume, ControllerUnpublishVolume]"
| "promised GET_CAPACITY = [GetCapacity]"
| "promised EXPAND_VOLUME = [ControllerExpandVolume]"
| "promised GET_VOLUME = [ControllerGetVolume]"
| "promised SINGLE_NODE_MULTI_WRITER = []"

section \<open>Node service\<close>

datatype node_capability = NODE_STAGE_UNSTAGE_VOLUME | NODE_EXPAND_VOLUME | NODE_GET_VOLUME_STATS

datatype access_mode =
  SINGLE_NODE_WRITER | SINGLE_NODE_READER_ONLY | SINGLE_NODE_SINGLE_WRITER | SINGLE_NODE_MULTI_WRITER_MODE

definition nodeCaps :: "node_capability list" where
  "nodeCaps = [NODE_STAGE_UNSTAGE_VOLUME, NODE_EXPAND_VOLUME, NODE_GET_VOLUME_STATS]"

definition volumeCaps :: "access_mode list" where
  "volumeCaps = [SINGLE_NODE_WRITER, SINGLE_NODE_READER_ONLY, SINGLE_NODE_SINGLE_WRITER,
     SINGLE_NODE_MULTI_WRITER_MODE]"

record 'e NodeService =
  ns_nodeID :: string
  ns_kclient :: "'e client"

definition NewNodeService :: "string \<Rightarrow> 'e client \<Rightarrow> 'e NodeService" where
  "NewNodeService nodeID clientSet = \<lparr>ns_nodeID = nodeID, ns_kclient = clientSet\<rparr>"

text \<open>The volume handlers of the node succeed with an empty response.\<close>

datatype node_rpc =
  NodeStageVolume | NodeUnstageVolume | NodePublishVolume | NodeUnpublishVolume
| NodeGetVolumeStats | NodeExpandVolume

fun node_handle :: "node_rpc \<Rightarrow> go_error + unit" where
  "node_handle NodeStageVolume = Inr ()"
| "node_handle NodeUnstageVolume = Inr ()"
| "node_handle NodePublishVolume = Inr ()"
| "node_handle NodeUnpublishVolume = Inr ()"
| "node_handle NodeGetVolumeStats = Inr ()"
| "node_handle NodeExpandVolume = Inr ()"

definition NodeGetCapabilities :: "go_error + node_capability list" where
  "NodeGetCapabilities = Inr (wrap_caps [] nodeCaps)"

record node_info =
  ni_NodeId :: string
  ni_MaxVolumesPerNode :: int
  ni_AccessibleTopology :: "string \<rightharpoonup> string"

text \<open>\<^verbatim>\<open>corev1.LabelTopologyRegion\<close> and \<^verbatim>\<open>corev1.LabelTopologyZone\<close>.\<close>

definition LabelTopologyRegion :: string where
  "LabelTopologyRegion = ''topology.kubernetes.io/region''"

definition LabelTopologyZone :: string where
  "LabelTopologyZone = ''topology.kubernetes.io/zone''"

text \<open>A map read in Go: the empty string for a key that is absent.\<close>

definition label_value :: "(string \<rightharpoonup> string) \<Rightarrow> string \<Rightarrow> string" where
  "label_value labels key = (case labels key of None \<Rightarrow> [] | Some v \<Rightarrow> v)"

definition NodeGetInfo :: "'e NodeService \<Rightarrow> ('e world, go_error + node_info) state" where
  "NodeGetInfo n = do {
     r \<leftarrow> get_node (ns_kclient n) (ns_nodeID n);
     case r of
       Inl err \<Rightarrow> State_Monad.return (Inl (Wrapf ''failed to get node %s: %w'' [ns_nodeID n] (ApiErr err)))
     | Inr x \<Rightarrow> State_Monad.return
         (let region = label_value (node_Labels x) LabelTopologyRegion in
          if region = [] then Inl (Errorf ''failed to get region for node %s'' [ns_nodeID n])
          else let zone = label_value (node_Labels x) LabelTopologyZone in
            if zone = [] then Inl (Errorf ''failed to get zone for node %s'' [ns_nodeID n])
            else Inr \<lparr>ni_NodeId = ns_nodeID n, ni_MaxVolumesPerNode = MaxVolumesPerNode,
                      ni_AccessibleTopology = [LabelTopologyRegion \<mapsto> region, LabelTopologyZone \<mapsto> zone]\<rparr>)
   }"

section \<open>Properties\<close>

lemma wrap_caps_append: "wrap_caps caps xs = caps @ xs"
  by (induction xs arbitrary: caps) auto

text \<open>
  The controller advertises every capability of its list, and every procedure an advertised
  capability promises answers \<^verbatim>\<open>Unimplemented\<close>.
\<close>

theorem advertised_but_unimplemented:
  "controller_handle ControllerGetCapabilities = Inr controllerCaps \<and>
   list_all (\<lambda>cap. list_all (\<lambda>rpc. controller_handle rpc = Inl (Status Unimplemented [])) (promised cap)) controllerCaps \<and>
   list_ex (\<lambda>cap. promised cap \<noteq> []) controllerCaps"
  by (simp add: wrap_caps_append controllerCaps_def)

text \<open>
  \<^verbatim>\<open>NodeGetInfo\<close> answers with the node's own region and zone exactly when the node can be read
  and both labels are there and not empty; the topology then has these two segments and no other.
\<close>

theorem NodeGetInfo_result:
  "fst (run_state (NodeGetInfo n) w) = Inr info \<longleftrightarrow>
     (\<exists>x region zone. fst (cl_GetNode (ns_kclient n) (ns_nodeID n) (env w)) = Inr x \<and>
        node_Labels x LabelTopologyRegion = Some region \<and> region \<noteq> [] \<and>
        node_Labels x LabelTopologyZone = Some zone \<and> zone \<noteq> [] \<and>
        info = \<lparr>ni_NodeId = ns_nodeID n, ni_MaxVolumesPerNode = 24,
                ni_AccessibleTopology = [LabelTopologyRegion \<mapsto> region, LabelTopologyZone \<mapsto> zone]\<rparr>)"
  by (auto simp: NodeGetInfo_def get_node_def label_value_def Let_def MaxVolumesPerNode_def
      split: sum.splits option.splits if_splits)

end
