(* ===== verification/ProvisionerMain.thy ===== *)
theory ProvisionerMain
  imports Selection CsiServices "HOL-Library.Sublist"
begin

text \<open>
  The program \<^verbatim>\<open>cmd/csi-provisioner\<close>: what \<^verbatim>\<open>main\<close> does with the flags and the environment, step by
  step, until the controller runs. The libraries that build a configuration, a client, a mux or an
  election are parameters; log output and flag parsing are left out. The goroutine that serves HTTP runs
  beside \<^verbatim>\<open>main\<close>: the relation \<open>process\<close> says how the two end together. A numeric flag the code only
  hands on has a type of its own, \<open>'q\<close>.
\<close>

section \<open>Flags and environment\<close>

record ('k, 'q) rest_config =
  cfg_Base :: 'k
  cfg_QPS :: 'q
  cfg_Burst :: int
  cfg_ContentType :: string

record 'q provisioner_flags =
  fl_showVersion :: bool
  fl_master :: string
  fl_kubeconfig :: string
  fl_kubeAPIQPS :: 'q
  fl_kubeAPIBurst :: int
  fl_httpEndpoint :: string
  fl_metricsPath :: string
  fl_enableLeaderElection :: bool
  fl_leaderElectionNamespace :: string
  fl_leaderElectionLeaseDuration :: int
  fl_leaderElectionRenewDeadline :: int
  fl_leaderElectionRetryPeriod :: int
  fl_method :: string

text \<open>
  What the libraries answer during one start: the second client is the one for leader election, the
  identity's prefix comes from the clock and the random generator, and the caches' synchronisation
  results are those of \<^verbatim>\<open>WaitForCacheSync\<close>. The HTTP server comes back with an error or not at all. A mux panics on a pattern it cannot register, given the
  patterns it has. \<^verbatim>\<open>Run\<close> of the election fails at once, or calls back when this process is elected.
\<close>

datatype campaign = RunFails string | NeverElected | Elected

record ('k, 'q, 'e) provisioner_env =
  pe_Getenv :: "string \<Rightarrow> string"
  pe_BuildConfigFromFlags :: "string \<Rightarrow> string \<Rightarrow> string + ('k, 'q) rest_config"
  pe_InClusterConfig :: "string + ('k, 'q) rest_config"
  pe_NewForConfig :: "('k, 'q) rest_config \<Rightarrow> string + 'e client"
  pe_NewLeaderClient :: "('k, 'q) rest_config \<Rightarrow> string + 'e client"
  pe_Handle :: "string list \<Rightarrow> string \<Rightarrow> string option"
  pe_PrepareHealthCheck :: "string list \<Rightarrow> string option"
  pe_ListenAndServe :: "string option"
  pe_Run :: campaign
  pe_timeStamp :: string
  pe_random :: string
  pe_driverLister :: "string \<Rightarrow> api_error + csi_driver option"
  pe_scLister :: "string \<Rightarrow> api_error + storage_class option"
  pe_csiNodeLister :: "string \<Rightarrow> api_error + csi_node option"
  pe_nodeLister :: "string \<Rightarrow> api_error + node option"
  pe_cacheSync :: "bool list"

record 'e election =
  le_client :: "'e client"
  le_lockName :: string
  le_healthCheck :: bool
  le_namespace :: "string option"
  le_leaseDuration :: int
  le_renewDeadline :: int
  le_retryPeriod :: int
  le_identity :: string

section \<open>Steps and outcomes\<close>

datatype resource = CSIDrivers | StorageClasses | PersistentVolumeClaims | CSINodes | Nodes

datatype gatherer = LegacyGatherer | ControllerRegistry

datatype controller_option =
  LeaderElection bool | FailedProvisionThreshold int | FailedDeleteThreshold int | NodesLister | MetricsInstance

text \<open>What a start does to the world outside it, in order.\<close>

datatype 'e step =
    RequestInformer resource
  | HandleMetrics string "gatherer list"
  | ListenAndServe string
  | NewController string "'e HybridProvisioner" "controller_option list"
  | HandleHealth
  | Campaign "'e election"
  | StartInformers
  | WaitForCacheSync "bool list"
  | RunController

definition perform_step :: "'e step \<Rightarrow> ('e step list, unit) state" where
  "perform_step s = State (\<lambda>tr. ((), tr @ [s]))"

lemma run_perform_step [simp]: "run_state (perform_step s) tr = ((), tr @ [s])"
  by (simp add: perform_step_def)

fun perform_steps :: "'e step list \<Rightarrow> ('e step list, unit) state" where
  "perform_steps [] = State_Monad.return ()"
| "perform_steps (s # ss) = do { perform_step s; perform_steps ss }"

lemma run_perform_steps [simp]: "run_state (perform_steps ss) tr = ((), tr @ ss)"
  by (induction ss arbitrary: tr) auto

text \<open>
  How a start ends: an exit with a code, a \<^verbatim>\<open>klog.Fatalf\<close>, a panic, the controller running, or waiting
  for an election that another process holds.
\<close>

datatype outcome = OsExit int | FatalExit string string | GoPanic string | Running | Standby

definition main_DriverName :: string where
  "main_DriverName = ''csi.hybrid.sinextra.dev''"

definition ContentTypeProtobuf :: string where
  "ContentTypeProtobuf = ''application/vnd.kubernetes.protobuf''"

fun caches_synced :: "bool list \<Rightarrow> bool" where
  "caches_synced [] = True"
| "caches_synced (v # vs) = (if \<not> v then False else caches_synced vs)"

text \<open>The function \<^verbatim>\<open>run\<close> of \<^verbatim>\<open>main\<close>: the controller runs only on synchronised caches.\<close>

definition run_controller :: "bool list \<Rightarrow> ('e step list, outcome) state" where
  "run_controller cacheSyncResult = do {
     perform_step StartInformers;
     perform_step (WaitForCacheSync cacheSyncResult);
     if caches_synced cacheSyncResult then do {
       perform_step RunController;
       State_Monad.return Running
     }
     else State_Monad.return (FatalExit ''Failed to sync Informers!'' '''')
   }"

definition valid_method :: "string \<Rightarrow> bool" where
  "valid_method m \<longleftrightarrow> m = ''auto'' \<or> m = ''pod'' \<or> m = ''annotation''"

definition chosen_kubeconfig :: "('k, 'q, 'e) provisioner_env \<Rightarrow> 'q provisioner_flags \<Rightarrow> string" where
  "chosen_kubeconfig ev fl =
     (let kubeconfigEnv = pe_Getenv ev ''KUBECONFIG''
      in if kubeconfigEnv \<noteq> '''' then kubeconfigEnv else fl_kubeconfig fl)"

definition chosen_config ::
  "('k, 'q, 'e) provisioner_env \<Rightarrow> 'q provisioner_flags \<Rightarrow> string + ('k, 'q) rest_config" where
  "chosen_config ev fl =
     (let kubeconfig = chosen_kubeconfig ev fl
      in if fl_master fl \<noteq> '''' \<or> kubeconfig \<noteq> ''''
         then pe_BuildConfigFromFlags ev (fl_master fl) kubeconfig
         else pe_InClusterConfig ev)"

definition core_config :: "'q provisioner_flags \<Rightarrow> ('k, 'q) rest_config \<Rightarrow> ('k, 'q) rest_config" where
  "core_config fl config =
     config\<lparr>cfg_QPS := fl_kubeAPIQPS fl, cfg_Burst := fl_kubeAPIBurst fl,
            cfg_ContentType := ContentTypeProtobuf\<rparr>"

definition leader_election ::
  "('k, 'q, 'e) provisioner_env \<Rightarrow> 'q provisioner_flags \<Rightarrow> 'e client \<Rightarrow> 'e election" where
  "leader_election ev fl leClientset =
     \<lparr>le_client = leClientset,
      le_lockName = strings_ReplaceAll main_DriverName CHR ''/'' CHR ''-'',
      le_healthCheck = (fl_httpEndpoint fl \<noteq> ''''),
      le_namespace = (if fl_leaderElectionNamespace fl \<noteq> '''' then Some (fl_leaderElectionNamespace fl) else None),
      le_leaseDuration = fl_leaderElectionLeaseDuration fl,
      le_renewDeadline = fl_leaderElectionRenewDeadline fl,
      le_retryPeriod = fl_leaderElectionRetryPeriod fl,
      le_identity = pe_timeStamp ev @ ''-'' @ pe_random ev @ ''-'' @ main_DriverName\<rparr>"

text \<open>The HTTP endpoint: the controller's metrics beside the default ones, or nothing.\<close>

definition http_endpoint ::
  "('k, 'q, 'e) provisioner_env \<Rightarrow> 'q provisioner_flags \<Rightarrow> ('e step list, string option) state" where
  "http_endpoint ev fl =
     (if fl_httpEndpoint fl \<noteq> '''' then
        (case pe_Handle ev [] (fl_metricsPath fl) of
           Some m \<Rightarrow> State_Monad.return (Some m)
         | None \<Rightarrow> do {
             perform_step (HandleMetrics (fl_metricsPath fl) [LegacyGatherer, ControllerRegistry]);
             perform_step (ListenAndServe (fl_httpEndpoint fl));
             State_Monad.return None
           })
      else State_Monad.return None)"

definition provisioner_options :: "'q provisioner_flags \<Rightarrow> controller_option list" where
  "provisioner_options fl =
     [LeaderElection False, FailedProvisionThreshold 0, FailedDeleteThreshold 0, NodesLister] @
     (if fl_httpEndpoint fl \<noteq> '''' then [MetricsInstance] else [])"

text \<open>The end of \<^verbatim>\<open>main\<close> with an election.\<close>

definition campaign_and_run ::
  "('k, 'q, 'e) provisioner_env \<Rightarrow> 'q provisioner_flags \<Rightarrow> ('k, 'q) rest_config \<Rightarrow> ('e step list, outcome) state" where
  "campaign_and_run ev fl coreConfig =
     (case pe_NewLeaderClient ev coreConfig of
        Inl err \<Rightarrow> State_Monad.return (FatalExit ''Failed to create leaderelection client: %v'' err)
      | Inr leClientset \<Rightarrow>
          (case (if fl_httpEndpoint fl \<noteq> '''' then pe_PrepareHealthCheck ev [fl_metricsPath fl] else None) of
             Some m \<Rightarrow> State_Monad.return (GoPanic m)
           | None \<Rightarrow> do {
               perform_steps (if fl_httpEndpoint fl \<noteq> '''' then [HandleHealth] else []);
               perform_step (Campaign (leader_election ev fl leClientset));
               case pe_Run ev of
                 RunFails err \<Rightarrow> State_Monad.return (FatalExit ''failed to initialize leader election: %v'' err)
               | NeverElected \<Rightarrow> State_Monad.return Standby
               | Elected \<Rightarrow> run_controller (pe_cacheSync ev)
             }))"

definition provisioner_main ::
  "('k, 'q, 'e) provisioner_env \<Rightarrow> 'q provisioner_flags \<Rightarrow> ('e step list, outcome) state" where
  "provisioner_main ev fl =
     (if fl_showVersion fl then State_Monad.return (OsExit 0)
      else if \<not> valid_method (fl_method fl)
      then State_Monad.return (FatalExit ''Invalid value for method: %s'' (fl_method fl))
      else case chosen_config ev fl of
        Inl err \<Rightarrow> State_Monad.return (FatalExit ''Failed to create config: %v'' err)
      | Inr config \<Rightarrow>
          (let coreConfig = core_config fl config in
           case pe_NewForConfig ev coreConfig of
             Inl err \<Rightarrow> State_Monad.return (OsExit 1)
           | Inr clientset \<Rightarrow> do {
               perform_steps (map RequestInformer
                 [CSIDrivers, StorageClasses, PersistentVolumeClaims, CSINodes, Nodes]);
               let csiProvisioner = NewProvisioner clientset (fl_method fl) (pe_driverLister ev)
                 (pe_scLister ev) (pe_csiNodeLister ev) (pe_nodeLister ev);
               r \<leftarrow> http_endpoint ev fl;
               case r of
                 Some m \<Rightarrow> State_Monad.return (GoPanic m)
               | None \<Rightarrow> do {
                   perform_step (NewController main_DriverName csiProvisioner (provisioner_options fl));
                   if \<not> fl_enableLeaderElection fl then run_controller (pe_cacheSync ev)
                   else campaign_and_run ev fl coreConfig
                 }
             }))"

section \<open>Properties\<close>

lemma caches_synced_iff: "caches_synced vs \<longleftrightarrow> False \<notin> set vs"
  by (induction vs) auto

lemma method_kept: "valid_method m \<Longrightarrow> hp_method (NewProvisioner c m ds cs ns ls) = m"
  by (auto simp: valid_method_def NewProvisioner_def methodDefault_def methodPod_def methodAnnotation_def)

text \<open>The outcome and the steps of a start.\<close>

definition ends_in :: "('k, 'q, 'e) provisioner_env \<Rightarrow> 'q provisioner_flags \<Rightarrow> outcome" where
  "ends_in ev fl = fst (run_state (provisioner_main ev fl) [])"

definition steps_of :: "('k, 'q, 'e) provisioner_env \<Rightarrow> 'q provisioner_flags \<Rightarrow> 'e step list" where
  "steps_of ev fl = snd (run_state (provisioner_main ev fl) [])"

section \<open>The goroutine that serves HTTP\<close>

text \<open>When the server comes back with an error the process ends, whatever \<^verbatim>\<open>main\<close> is doing.\<close>

definition serve_http :: "('k, 'q, 'e) provisioner_env \<Rightarrow> outcome option" where
  "serve_http ev =
     (case pe_ListenAndServe ev of
        Some err \<Rightarrow> Some (FatalExit
          ''Failed to start HTTP server at specified address (%q) and metrics path (%q): %s'' err)
      | None \<Rightarrow> None)"

text \<open>The ends a process can come to: that of \<^verbatim>\<open>main\<close>, or the server's at any time after its start.\<close>

inductive process :: "('k, 'q, 'e) provisioner_env \<Rightarrow> 'q provisioner_flags \<Rightarrow> outcome \<Rightarrow> 'e step list \<Rightarrow> bool"
  for ev fl where
  main_ends: "process ev fl (ends_in ev fl) (steps_of ev fl)"
| server_ends: "steps_of ev fl = before @ ListenAndServe a # later @ rest \<Longrightarrow> serve_http ev = Some out \<Longrightarrow>
     process ev fl out (before @ ListenAndServe a # later)"

section \<open>The sequence of steps\<close>

definition informers :: "'e step list" where
  "informers = map RequestInformer [CSIDrivers, StorageClasses, PersistentVolumeClaims, CSINodes, Nodes]"

definition http_steps :: "'q provisioner_flags \<Rightarrow> 'e step list" where
  "http_steps fl =
     (if fl_httpEndpoint fl = '''' then []
      else [HandleMetrics (fl_metricsPath fl) [LegacyGatherer, ControllerRegistry], ListenAndServe (fl_httpEndpoint fl)])"

definition health_steps :: "'q provisioner_flags \<Rightarrow> 'e step list" where
  "health_steps fl = (if fl_httpEndpoint fl = '''' then [] else [HandleHealth])"

text \<open>The steps and the outcome of \<^verbatim>\<open>run\<close> and of the election.\<close>

definition run_steps :: "bool list \<Rightarrow> 'e step list" where
  "run_steps vs = [StartInformers, WaitForCacheSync vs] @ (if False \<in> set vs then [] else [RunController])"

definition run_outcome_of :: "bool list \<Rightarrow> outcome" where
  "run_outcome_of vs = (if False \<in> set vs then FatalExit ''Failed to sync Informers!'' '''' else Running)"

lemma run_run_controller: "run_state (run_controller vs) tr = (run_outcome_of vs, tr @ run_steps vs)"
  by (simp add: run_controller_def run_steps_def run_outcome_of_def caches_synced_iff)

lemma run_http_endpoint:
  "run_state (http_endpoint ev fl) tr =
     (case (if fl_httpEndpoint fl = '''' then None else pe_Handle ev [] (fl_metricsPath fl)) of
        Some m \<Rightarrow> (Some m, tr)
      | None \<Rightarrow> (None, tr @ http_steps fl))"
  by (simp add: http_endpoint_def http_steps_def split: option.split)

lemma run_campaign:
  "run_state (campaign_and_run ev fl k) tr =
     (case pe_NewLeaderClient ev k of
        Inl err \<Rightarrow> (FatalExit ''Failed to create leaderelection client: %v'' err, tr)
      | Inr le \<Rightarrow>
          (case (if fl_httpEndpoint fl = '''' then None else pe_PrepareHealthCheck ev [fl_metricsPath fl]) of
             Some m \<Rightarrow> (GoPanic m, tr)
           | None \<Rightarrow>
               (case pe_Run ev of
                  RunFails err \<Rightarrow> (FatalExit ''failed to initialize leader election: %v'' err,
                    tr @ health_steps fl @ [Campaign (leader_election ev fl le)])
                | NeverElected \<Rightarrow> (Standby, tr @ health_steps fl @ [Campaign (leader_election ev fl le)])
                | Elected \<Rightarrow> (run_outcome_of (pe_cacheSync ev),
                    tr @ health_steps fl @ [Campaign (leader_election ev fl le)] @ run_steps (pe_cacheSync ev)))))"
  by (simp add: campaign_and_run_def run_run_controller health_steps_def
      split: sum.split option.split campaign.split)

text \<open>All the steps of a start that goes through.\<close>

definition full_start ::
  "('k, 'q, 'e) provisioner_env \<Rightarrow> 'q provisioner_flags \<Rightarrow> 'e HybridProvisioner \<Rightarrow> 'e client \<Rightarrow> 'e step list" where
  "full_start ev fl p le =
     informers @ http_steps fl @ [NewController main_DriverName p (provisioner_options fl)] @
     (if fl_enableLeaderElection fl then health_steps fl @ [Campaign (leader_election ev fl le)] else []) @
     [StartInformers, WaitForCacheSync (pe_cacheSync ev), RunController]"

lemma run_steps_full:
  "prefix (run_steps vs) [StartInformers, WaitForCacheSync vs, RunController]"
  "run_outcome_of vs = Running \<longleftrightarrow> False \<notin> set vs"
  "run_steps vs = [StartInformers, WaitForCacheSync vs, RunController] \<longleftrightarrow> False \<notin> set vs"
  by (simp_all add: run_steps_def run_outcome_of_def)

text \<open>Where a start that has a client and a mux ends.\<close>

lemma start_with_client:
  assumes "\<not> fl_showVersion fl" and "valid_method (fl_method fl)" and "chosen_config ev fl = Inr config"
    and "pe_NewForConfig ev (core_config fl config) = Inr c"
    and "fl_httpEndpoint fl = '''' \<or> pe_Handle ev [] (fl_metricsPath fl) = None"
    and "p = NewProvisioner c (fl_method fl) (pe_driverLister ev) (pe_scLister ev) (pe_csiNodeLister ev) (pe_nodeLister ev)"
  shows "run_state (provisioner_main ev fl) [] =
    run_state (if fl_enableLeaderElection fl then campaign_and_run ev fl (core_config fl config) else run_controller (pe_cacheSync ev))
      (informers @ http_steps fl @ [NewController main_DriverName p (provisioner_options fl)])"
proof -
  have "(if fl_httpEndpoint fl = '''' then None else pe_Handle ev [] (fl_metricsPath fl)) = None"
    using assms(5) by auto
  with assms show ?thesis
    by (simp add: provisioner_main_def run_http_endpoint informers_def del: perform_steps.simps)
qed

text \<open>Every start takes a part of the full start's steps, all of them exactly when it runs.\<close>

definition well_started :: "('k, 'q, 'e) provisioner_env \<Rightarrow> 'q provisioner_flags \<Rightarrow> outcome \<times> 'e step list \<Rightarrow> bool" where
  "well_started ev fl r \<longleftrightarrow> (\<exists>c le.
     let p = NewProvisioner c (fl_method fl) (pe_driverLister ev) (pe_scLister ev) (pe_csiNodeLister ev) (pe_nodeLister ev)
     in prefix (snd r) (full_start ev fl p le) \<and>
        (fst r = Running \<longleftrightarrow> snd r = full_start ev fl p le) \<and>
        (fst r = Running \<longrightarrow> valid_method (fl_method fl) \<and> False \<notin> set (pe_cacheSync ev)))"

lemma partly_started:
  assumes "out \<noteq> Running" and "xs \<noteq> []"
    and "tr @ xs = full_start ev fl (NewProvisioner c (fl_method fl) (pe_driverLister ev) (pe_scLister ev)
       (pe_csiNodeLister ev) (pe_nodeLister ev)) le"
  shows "well_started ev fl (out, tr)"
  unfolding well_started_def Let_def
  by (rule exI [where x = c], rule exI [where x = le]) (use assms(1,2) assms(3) [symmetric] in auto)

lemma well_started_campaign:
  assumes "valid_method (fl_method fl)" and "fl_enableLeaderElection fl"
    and "p = NewProvisioner c (fl_method fl) (pe_driverLister ev) (pe_scLister ev) (pe_csiNodeLister ev) (pe_nodeLister ev)"
  shows "well_started ev fl (run_state (campaign_and_run ev fl k)
     (informers @ http_steps fl @ [NewController main_DriverName p (provisioner_options fl)]))"
proof -
  have before: "well_started ev fl (out, informers @ http_steps fl @ [NewController main_DriverName p (provisioner_options fl)])"
    if "out \<noteq> Running" for out
    by (rule partly_started [OF that, where c = c and xs = "health_steps fl @ Campaign (leader_election ev fl c) # [StartInformers, WaitForCacheSync (pe_cacheSync ev), RunController]"])
      (simp_all add: full_start_def assms)
  have waiting: "well_started ev fl (out, informers @ http_steps fl @ NewController main_DriverName p (provisioner_options fl) #
      health_steps fl @ [Campaign (leader_election ev fl le)])" if "out \<noteq> Running" for out le
    by (rule partly_started [OF that, where c = c and xs = "[StartInformers, WaitForCacheSync (pe_cacheSync ev), RunController]"])
      (simp_all add: full_start_def assms)
  have elected: "well_started ev fl (run_outcome_of (pe_cacheSync ev), informers @ http_steps fl @
      NewController main_DriverName p (provisioner_options fl) # health_steps fl @
      Campaign (leader_election ev fl le) # run_steps (pe_cacheSync ev))" for le
    unfolding well_started_def Let_def
    by (rule exI [where x = c], rule exI [where x = le]) (simp add: full_start_def assms run_steps_full)
  show ?thesis
    by (simp add: run_campaign before waiting elected split: sum.split option.split campaign.split)
qed

lemma well_started_run:
  assumes "valid_method (fl_method fl)" and "\<not> fl_enableLeaderElection fl"
    and "p = NewProvisioner c (fl_method fl) (pe_driverLister ev) (pe_scLister ev) (pe_csiNodeLister ev) (pe_nodeLister ev)"
  shows "well_started ev fl (run_state (run_controller (pe_cacheSync ev))
     (informers @ http_steps fl @ [NewController main_DriverName p (provisioner_options fl)]))"
  unfolding well_started_def Let_def
  by (rule exI [where x = c], rule exI [where x = c])
    (simp add: run_run_controller full_start_def assms run_steps_full)

lemma start_well_started: "well_started ev fl (run_state (provisioner_main ev fl) [])"
proof -
  have refused: "well_started ev fl (out, [])" if "out \<noteq> Running" for out
    by (rule partly_started [OF that]) (simp_all add: full_start_def)
  show ?thesis
  proof (cases "fl_showVersion fl \<or> \<not> valid_method (fl_method fl)")
    case True
    then have "\<exists>out. out \<noteq> Running \<and> run_state (provisioner_main ev fl) [] = (out, [])"
      by (cases "fl_showVersion fl") (simp_all add: provisioner_main_def)
    with refused show ?thesis by auto
  next
    case False
    show ?thesis
    proof (cases "chosen_config ev fl")
      case (Inl err)
      with False show ?thesis by (simp add: provisioner_main_def refused)
    next
      case config: (Inr config)
      show ?thesis
      proof (cases "pe_NewForConfig ev (core_config fl config)")
        case (Inl err)
        with False config show ?thesis by (simp add: provisioner_main_def refused)
      next
        case (Inr c)
        show ?thesis
        proof (cases "if fl_httpEndpoint fl = '''' then None else pe_Handle ev [] (fl_metricsPath fl)")
          case (Some m)
          have "run_state (provisioner_main ev fl) [] = (GoPanic m, informers)"
            using False config Inr Some
            by (simp add: provisioner_main_def run_http_endpoint informers_def del: perform_steps.simps)
          moreover have "well_started ev fl (GoPanic m, informers)"
            by (rule partly_started [of _ _ _ ev fl undefined undefined, OF _ _ full_start_def [symmetric]]) simp_all
          ultimately show ?thesis by simp
        next
          case None
          then have "fl_httpEndpoint fl = '''' \<or> pe_Handle ev [] (fl_metricsPath fl) = None" by (auto split: if_splits)
          from start_with_client [OF _ _ config Inr this refl] False show ?thesis
            by (simp add: well_started_campaign well_started_run)
        qed
      qed
    qed
  qed
qed

lemma main_order:
  "\<exists>p le. prefix (steps_of ev fl) (full_start ev fl p le) \<and>
     (ends_in ev fl = Running \<longleftrightarrow> steps_of ev fl = full_start ev fl p le) \<and>
     (ends_in ev fl = Running \<longrightarrow> False \<notin> set (pe_cacheSync ev))"
  using start_well_started [of ev fl]
  unfolding well_started_def Let_def ends_in_def steps_of_def by blast

text \<open>The controller is run by the last step of a full start.\<close>

lemma full_start_last:
  assumes "prefix tr (full_start ev fl p le)" and "RunController \<in> set tr"
  shows "tr = full_start ev fl p le"
proof -
  obtain xs where xs: "full_start ev fl p le = xs @ [RunController]" "RunController \<notin> set xs"
    by (auto simp: full_start_def informers_def http_steps_def health_steps_def)
  with assms show ?thesis by (auto simp: prefix_snoc dest: set_mono_prefix)
qed

lemma http_steps_only: "ListenAndServe a \<in> set (full_start ev fl p le) \<Longrightarrow> fl_httpEndpoint fl \<noteq> ''''"
  by (auto simp: full_start_def informers_def http_steps_def health_steps_def split: if_splits)

text \<open>
  C37: the order of a start, as the process takes it with the HTTP server beside \<^verbatim>\<open>main\<close>. However the
  process ends, its steps are an initial part of one sequence: the five informers requested, the
  metrics served if an endpoint is given, the controller built, the election joined if asked for, the
  informers started, their caches awaited, the controller run. The controller is run only as the last
  step of the full sequence and on synchronised caches; a start called running has taken all of it; and
  a server that comes back with an error ends the process, but only if an endpoint is given.
\<close>

theorem provisioner_process_order:
  assumes "process ev fl out tr"
  shows "(\<exists>p le. prefix tr (full_start ev fl p le) \<and>
       (out = Running \<longrightarrow> tr = full_start ev fl p le) \<and>
       (RunController \<in> set tr \<longrightarrow> tr = full_start ev fl p le)) \<and>
     (RunController \<in> set tr \<longrightarrow> False \<notin> set (pe_cacheSync ev)) \<and>
     (fl_httpEndpoint fl = '''' \<longrightarrow> out = ends_in ev fl \<and> tr = steps_of ev fl)"
proof -
  from main_order [of ev fl] obtain p le where full: "prefix (steps_of ev fl) (full_start ev fl p le)"
    "ends_in ev fl = Running \<longleftrightarrow> steps_of ev fl = full_start ev fl p le"
    "ends_in ev fl = Running \<longrightarrow> False \<notin> set (pe_cacheSync ev)" by metis
  have tr: "prefix tr (steps_of ev fl)" and running: "out = Running \<Longrightarrow> tr = steps_of ev fl \<and> ends_in ev fl = Running"
    using assms by (auto elim!: process.cases simp: serve_http_def split: option.splits)
  have served: "out = ends_in ev fl \<and> tr = steps_of ev fl" if "fl_httpEndpoint fl = ''''"
    using assms
  proof cases
    case (server_ends before a later rest)
    then have "ListenAndServe a \<in> set (full_start ev fl p le)" using set_mono_prefix [OF full(1)] by auto
    with http_steps_only that show ?thesis by blast
  qed simp
  have last: "tr = full_start ev fl p le \<and> ends_in ev fl = Running" if "RunController \<in> set tr"
    using full_start_last [of tr] full_start_last [of "steps_of ev fl"] full tr that
    by (meson prefix_order.trans set_mono_prefix subsetD)
  have "prefix tr (full_start ev fl p le)" using tr full(1) by (rule prefix_order.trans)
  with last running full served show ?thesis by blast
qed

text \<open>
  The order of the steps of \<^verbatim>\<open>main\<close> alone. Whatever the flags and the environment, the steps taken are an initial
  part of one sequence: the five informers requested, the metrics served if an endpoint is given, the
  controller built, the election joined if asked for, the informers started, their caches awaited,
  the controller run. All of it is taken exactly when the start ends with the controller running: no
  start runs the controller and fails, and none is half done and called running.
\<close>

theorem provisioner_main_order:
  "\<exists>p le. prefix (steps_of ev fl) (full_start ev fl p le) \<and>
     (ends_in ev fl = Running \<longleftrightarrow> steps_of ev fl = full_start ev fl p le)"
  using start_well_started [of ev fl]
  unfolding well_started_def Let_def ends_in_def steps_of_def by blast

text \<open>
  C38: the controller runs only on synchronised caches, after they were awaited, under the driver name
  the CSI services and the provisioner package use, with a provisioner that has exactly the method of
  the command line (\<^verbatim>\<open>NewProvisioner\<close> does not fall back to its default), and after the election, on
  the lock of that same name, exactly when told to take part in one.
\<close>

theorem provisioner_main_runs:
  assumes "ends_in ev fl = Running"
  shows "False \<notin> set (pe_cacheSync ev) \<and> DriverName = csi_DriverName \<and>
     (\<exists>p opts. NewController DriverName p opts \<in> set (steps_of ev fl) \<and>
        hp_method p = fl_method fl \<and> wf_provisioner p) \<and>
     (fl_enableLeaderElection fl \<longleftrightarrow> (\<exists>le. Campaign le \<in> set (steps_of ev fl))) \<and>
     (\<forall>le. Campaign le \<in> set (steps_of ev fl) \<longrightarrow> le_lockName le = DriverName) \<and>
     drop (length (steps_of ev fl) - 2) (steps_of ev fl) = [WaitForCacheSync (pe_cacheSync ev), RunController]"
proof -
  have lock: "le_lockName (leader_election ev fl le) = DriverName" for le
    by (simp add: leader_election_def DriverName_def main_DriverName_def strings_ReplaceAll_id)
  have names: "main_DriverName = DriverName" "DriverName = csi_DriverName"
    by (simp_all add: main_DriverName_def DriverName_def csi_DriverName_def)
  from start_well_started [of ev fl] assms obtain c le where
    steps: "steps_of ev fl = full_start ev fl (NewProvisioner c (fl_method fl) (pe_driverLister ev) (pe_scLister ev)
       (pe_csiNodeLister ev) (pe_nodeLister ev)) le"
    and ok: "valid_method (fl_method fl)" "False \<notin> set (pe_cacheSync ev)"
    unfolding well_started_def Let_def ends_in_def steps_of_def by blast
  show ?thesis
    unfolding steps full_start_def using ok names lock method_kept [OF ok(1)]
    by (auto simp: informers_def http_steps_def health_steps_def intro!: exI wf_NewProvisioner)
qed

text \<open>A start on a laptop, with \<^verbatim>\<open>KUBECONFIG\<close> set, metrics and an election.\<close>

definition sample_flags :: "int provisioner_flags" where
  "sample_flags = \<lparr>fl_showVersion = False, fl_master = '''', fl_kubeconfig = ''/flag'', fl_kubeAPIQPS = 5,
     fl_kubeAPIBurst = 10, fl_httpEndpoint = '':8080'', fl_metricsPath = ''/metrics'',
     fl_enableLeaderElection = True, fl_leaderElectionNamespace = '''',
     fl_leaderElectionLeaseDuration = 15, fl_leaderElectionRenewDeadline = 10,
     fl_leaderElectionRetryPeriod = 5, fl_method = ''pod''\<rparr>"

definition sample_config :: "string \<Rightarrow> (string, int) rest_config" where
  "sample_config path = \<lparr>cfg_Base = path, cfg_QPS = 0, cfg_Burst = 0, cfg_ContentType = ''''\<rparr>"

definition sample_env :: "(string, int, unit) provisioner_env" where
  "sample_env = \<lparr>pe_Getenv = (\<lambda>v. if v = ''KUBECONFIG'' then ''/env'' else ''''),
     pe_BuildConfigFromFlags = (\<lambda>m k. Inr (sample_config k)),
     pe_InClusterConfig = Inl ''not in a cluster'',
     pe_NewForConfig = (\<lambda>k. Inr sample_client), pe_NewLeaderClient = (\<lambda>k. Inr sample_client),
     pe_Handle = (\<lambda>known p. if p \<in> set known then Some ''conflict'' else None),
     pe_PrepareHealthCheck = (\<lambda>known. if ''/healthz/leader-election'' \<in> set known then Some ''conflict'' else None),
     pe_ListenAndServe = None,
     pe_Run = Elected, pe_timeStamp = ''1700000000000'', pe_random = ''4711'',
     pe_driverLister = (\<lambda>n. Inl (NotFound n)), pe_scLister = (\<lambda>n. Inl (NotFound n)),
     pe_csiNodeLister = (\<lambda>n. Inl (NotFound n)), pe_nodeLister = (\<lambda>n. Inl (NotFound n)),
     pe_cacheSync = [True, True]\<rparr>"

theorem provisioner_main_runs_witness:
  "ends_in sample_env sample_flags = Running \<and>
   (\<exists>p opts. NewController DriverName p opts \<in> set (steps_of sample_env sample_flags) \<and> hp_method p = ''pod'') \<and>
   (\<exists>le. Campaign le \<in> set (steps_of sample_env sample_flags))"
proof -
  have run: "ends_in sample_env sample_flags = Running"
    by (simp add: ends_in_def provisioner_main_def run_http_endpoint sample_env_def sample_flags_def valid_method_def
        chosen_config_def chosen_kubeconfig_def run_campaign run_outcome_of_def)
  have "fl_method sample_flags = ''pod''" "fl_enableLeaderElection sample_flags" by (simp_all add: sample_flags_def)
  with provisioner_main_runs [OF run] run show ?thesis by (intro conjI) force+
qed

text \<open>The same start with an address somebody else listens on: the process ends before the controller is built.\<close>

definition failing_env :: "(string, int, unit) provisioner_env" where
  "failing_env = sample_env\<lparr>pe_ListenAndServe := Some ''address already in use''\<rparr>"

theorem provisioner_process_order_witness:
  "\<exists>out p le. process failing_env sample_flags out (informers @ http_steps sample_flags) \<and> serve_http failing_env = Some out \<and>
     prefix (informers @ http_steps sample_flags) (full_start failing_env sample_flags p le)"
proof -
  obtain out where out: "serve_http failing_env = Some out" by (simp add: serve_http_def failing_env_def)
  have http: "http_steps sample_flags =
      [HandleMetrics ''/metrics'' [LegacyGatherer, ControllerRegistry], ListenAndServe '':8080'']"
    by (simp add: http_steps_def sample_flags_def)
  obtain rest where "steps_of failing_env sample_flags = informers @ http_steps sample_flags @ rest"
    by (simp add: steps_of_def provisioner_main_def run_http_endpoint failing_env_def sample_env_def sample_flags_def
        valid_method_def chosen_config_def chosen_kubeconfig_def run_campaign informers_def http_steps_def)
  then have "steps_of failing_env sample_flags =
      (informers @ [HandleMetrics ''/metrics'' [LegacyGatherer, ControllerRegistry]]) @ ListenAndServe '':8080'' # [] @ rest"
    unfolding http by simp
  from process.server_ends [OF this out]
  have process: "process failing_env sample_flags out (informers @ http_steps sample_flags)" unfolding http by simp
  from provisioner_process_order [OF this] process out show ?thesis by blast
qed

text \<open>
  With an endpoint, a metrics path the mux refuses ends the start in a panic before anything is
  served; with an election, one that collides with the path of the health check ends it in a panic
  after the metrics are served and the controller is built.
\<close>

theorem provisioner_main_mux_panics:
  assumes "\<not> fl_showVersion fl" and "valid_method (fl_method fl)" and "chosen_config ev fl = Inr config"
    and "pe_NewForConfig ev (core_config fl config) = Inr c" and "fl_httpEndpoint fl \<noteq> ''''"
  shows "(\<forall>m. pe_Handle ev [] (fl_metricsPath fl) = Some m \<longrightarrow>
       ends_in ev fl = GoPanic m \<and> steps_of ev fl = informers) \<and>
     (\<forall>m le. pe_Handle ev [] (fl_metricsPath fl) = None \<longrightarrow> fl_enableLeaderElection fl \<longrightarrow>
        pe_NewLeaderClient ev (core_config fl config) = Inr le \<longrightarrow>
        pe_PrepareHealthCheck ev [fl_metricsPath fl] = Some m \<longrightarrow>
        ends_in ev fl = GoPanic m \<and> ListenAndServe (fl_httpEndpoint fl) \<in> set (steps_of ev fl) \<and>
        RunController \<notin> set (steps_of ev fl))"
  using assms
  by (auto simp: ends_in_def steps_of_def provisioner_main_def run_http_endpoint run_campaign informers_def http_steps_def
      simp del: perform_steps.simps)

theorem provisioner_main_mux_panics_witness:
  "ends_in sample_env (sample_flags\<lparr>fl_metricsPath := ''/healthz/leader-election''\<rparr>) = GoPanic ''conflict''"
proof -
  let ?fl = "sample_flags\<lparr>fl_metricsPath := ''/healthz/leader-election''\<rparr>"
  have pre: "\<not> fl_showVersion ?fl" "valid_method (fl_method ?fl)" "chosen_config sample_env ?fl = Inr (sample_config ''/env'')"
    "pe_NewForConfig sample_env (core_config ?fl (sample_config ''/env'')) = Inr sample_client" "fl_httpEndpoint ?fl \<noteq> ''''"
    by (simp_all add: sample_env_def sample_flags_def valid_method_def chosen_config_def chosen_kubeconfig_def)
  from provisioner_main_mux_panics [OF pre] show ?thesis
    by (simp add: sample_env_def sample_flags_def)
qed

text \<open>
  The configuration of the cluster the process runs in is used exactly when neither the master
  nor the kubeconfig flag is set nor \<^verbatim>\<open>KUBECONFIG\<close>; the environment variable overrides the flag.
\<close>

theorem chosen_config_source:
  "chosen_config ev fl =
     (if fl_master fl = '''' \<and> fl_kubeconfig fl = '''' \<and> pe_Getenv ev ''KUBECONFIG'' = ''''
      then pe_InClusterConfig ev
      else pe_BuildConfigFromFlags ev (fl_master fl)
        (if pe_Getenv ev ''KUBECONFIG'' = '''' then fl_kubeconfig fl else pe_Getenv ev ''KUBECONFIG''))"
  by (simp add: chosen_config_def chosen_kubeconfig_def Let_def)

end
