(* ===== verification/Endpoint.thy ===== *)
theory Endpoint
  imports GoLib
begin

text \<open>
  \<^verbatim>\<open>ParseEndpoint\<close> of \<^verbatim>\<open>pkg/csi/helper.go\<close>. \<^verbatim>\<open>url.Parse\<close> and the file system behind \<^verbatim>\<open>os.Remove\<close>
  are parameters; every path handed to \<^verbatim>\<open>os.Remove\<close> is recorded with its answer.
  \<^verbatim>\<open>filepath.FromSlash\<close> is the identity on the systems the program runs on, and \<^verbatim>\<open>path.Join\<close> is
  the one of \<open>GoLib\<close>.
\<close>

section \<open>The function\<close>

record url =
  url_Scheme :: string
  url_Host :: string
  url_Path :: string

datatype os_error = NotExist string | OtherOsError string

definition IsNotExist :: "os_error \<Rightarrow> bool" where
  "IsNotExist e = (case e of NotExist _ \<Rightarrow> True | OtherOsError _ \<Rightarrow> False)"

record 'fs file_system =
  fs_state :: 'fs
  fs_removals :: "(string \<times> os_error option) list"

definition os_Remove ::
  "(string \<Rightarrow> 'fs \<Rightarrow> os_error option \<times> 'fs) \<Rightarrow> string \<Rightarrow> ('fs file_system, os_error option) state" where
  "os_Remove remove name = State (\<lambda>w. case remove name (fs_state w) of
     (r, s) \<Rightarrow> (r, w\<lparr>fs_state := s, fs_removals := fs_removals w @ [(name, r)]\<rparr>))"

definition os_message :: "os_error \<Rightarrow> string" where
  "os_message e = (case e of NotExist m \<Rightarrow> m | OtherOsError m \<Rightarrow> m)"

definition ParseEndpoint ::
  "(string \<Rightarrow> string + url) \<Rightarrow> (string \<Rightarrow> 'fs \<Rightarrow> os_error option \<times> 'fs) \<Rightarrow> string \<Rightarrow>
   ('fs file_system, go_error + string \<times> string) state" where
  "ParseEndpoint url_Parse remove endpoint =
     (case url_Parse endpoint of
        Inl err \<Rightarrow> State_Monad.return (Inl (Errorf ''could not parse endpoint: %v'' [err]))
      | Inr u \<Rightarrow>
          let addr = path_Join [url_Host u, url_Path u];
              scheme = strings_ToLower (url_Scheme u)
          in if scheme = ''tcp'' then State_Monad.return (Inr (scheme, addr))
             else if scheme = ''unix'' then
               let addr = path_Join [''/'', addr] in do {
                 r \<leftarrow> os_Remove remove addr;
                 case r of
                   None \<Rightarrow> State_Monad.return (Inr (scheme, addr))
                 | Some err \<Rightarrow>
                     if \<not> IsNotExist err
                     then State_Monad.return
                       (Inl (Errorf ''could not remove unix domain socket %q: %v'' [addr, os_message err]))
                     else State_Monad.return (Inr (scheme, addr))
               }
             else State_Monad.return (Inl (Errorf ''unsupported protocol: %s'' [scheme])))"

lemma run_os_Remove:
  "run_state (os_Remove remove name) w =
     (fst (remove name (fs_state w)),
      w\<lparr>fs_state := snd (remove name (fs_state w)),
        fs_removals := fs_removals w @ [(name, fst (remove name (fs_state w)))]\<rparr>)"
  by (simp add: os_Remove_def split: prod.split)

section \<open>Cleaning plain paths\<close>

text \<open>Elements that are proper or empty are kept or skipped; nothing else happens to them.\<close>

definition plain :: "string list \<Rightarrow> bool" where
  "plain es \<longleftrightarrow> (\<forall>e\<in>set es. e \<noteq> '''' \<longrightarrow> proper_elem e)"

lemma foldl_clean_plain:
  "plain es \<Longrightarrow> foldl (clean_elem rooted) st es = rev (filter (\<lambda>e. e \<noteq> '''') es) @ st"
  by (induction es arbitrary: st) (auto simp: plain_def clean_elem_def proper_elem_def)

lemma path_Clean_plain:
  assumes "p \<noteq> ''''" and "plain (strings_Split p CHR ''/'')"
  shows "path_Clean p =
     (let es = filter (\<lambda>e. e \<noteq> '''') (strings_Split p CHR ''/'')
      in if hd p = CHR ''/'' then ''/'' @ strings_Join es ''/''
         else if es = [] then ''.'' else strings_Join es ''/'')"
  using assms by (simp add: path_Clean_def foldl_clean_plain Let_def)

lemma Split_proper:
  "es \<noteq> [] \<Longrightarrow> list_all proper_elem es \<Longrightarrow> strings_Split (strings_Join es ''/'') CHR ''/'' = es"
  by (rule strings_Split_Join) (auto simp: proper_elem_def list_all_iff)

lemma Split_slash: "strings_Split (''/'' @ s) CHR ''/'' = [] # strings_Split s CHR ''/''"
  by simp

lemma filter_proper: "list_all proper_elem es \<Longrightarrow> filter (\<lambda>e. e \<noteq> '''') es = es"
  by (induction es) (auto simp: proper_elem_def)

lemma proper_plain: "list_all proper_elem es \<Longrightarrow> plain es"
  by (auto simp: plain_def list_all_iff)

lemma proper_hd: "proper_elem e \<Longrightarrow> hd e \<noteq> CHR ''/''"
  by (cases e) (auto simp: proper_elem_def)

text \<open>The address of a host and a rooted path, both plain.\<close>

definition endpoint_elems :: "string \<Rightarrow> string list \<Rightarrow> string list" where
  "endpoint_elems host es = (if host = '''' then es else host # es)"

lemma join_host_path:
  assumes "es \<noteq> []" and "list_all proper_elem es" and "host = '''' \<or> proper_elem host"
  shows "path_Join [host, ''/'' @ strings_Join es ''/''] =
     (if host = '''' then ''/'' else '''') @ strings_Join (endpoint_elems host es) ''/''"
proof (cases "host = ''''")
  case True
  have "plain ([] # es)" using assms(2) by (auto simp: plain_def list_all_iff)
  then show ?thesis
    using True assms by (simp add: path_Join_def endpoint_elems_def path_Clean_plain Split_proper
        filter_proper Let_def)
next
  case False
  with assms have h: "proper_elem host" by simp
  have split: "strings_Split (host @ ''/'' @ ''/'' @ strings_Join es ''/'') CHR ''/'' = host # [] # es"
    using h assms by (simp add: strings_Split_append Split_proper proper_elem_def)
  moreover have "plain (host # [] # es)" using h assms(2) by (auto simp: plain_def list_all_iff)
  ultimately have "path_Clean (host @ ''/'' @ ''/'' @ strings_Join es ''/'') = strings_Join (host # es) ''/''"
    using h assms proper_hd [OF h] by (subst path_Clean_plain) (auto simp: Let_def filter_proper proper_elem_def)
  with False show ?thesis by (simp add: path_Join_def endpoint_elems_def)
qed

lemma join_root:
  assumes "es \<noteq> []" and "list_all proper_elem es" and "p = '''' \<or> p = ''/''"
  shows "path_Join [''/'', p @ strings_Join es ''/''] = ''/'' @ strings_Join es ''/''"
proof -
  have "plain ([] # [] # es)" "plain ([] # [] # [] # es)"
    using assms(2) by (auto simp: plain_def list_all_iff)
  with assms show ?thesis
    by (auto simp: path_Join_def path_Clean_plain Split_proper filter_proper Let_def)
qed

section \<open>Properties\<close>

text \<open>
  C35: \<^verbatim>\<open>ParseEndpoint\<close> removes a file only for a \<^verbatim>\<open>unix\<close> endpoint, then exactly one, under a rooted
  path without empty, dot or dot-dot elements; that path is the address it returns.
\<close>

theorem ParseEndpoint_removal:
  "\<exists>removed. fs_removals (snd (run_state (ParseEndpoint parse remove endpoint) w)) = fs_removals w @ removed \<and>
     (case parse endpoint of
        Inl err \<Rightarrow> removed = []
      | Inr u \<Rightarrow>
          if strings_ToLower (url_Scheme u) = ''unix''
          then \<exists>es answer. removed = [(''/'' @ strings_Join es ''/'', answer)] \<and> list_all proper_elem es \<and>
            fst (run_state (ParseEndpoint parse remove endpoint) w) =
              (if answer = None \<or> (\<exists>m. answer = Some (NotExist m)) then Inr (''unix'', ''/'' @ strings_Join es ''/'')
               else Inl (Errorf ''could not remove unix domain socket %q: %v''
                      [''/'' @ strings_Join es ''/'', os_message (the answer)]))
          else removed = [])"
proof (cases "parse endpoint")
  case (Inl err)
  then show ?thesis by (simp add: ParseEndpoint_def)
next
  case (Inr u)
  obtain es where es: "path_Join [''/'', path_Join [url_Host u, url_Path u]] = ''/'' @ strings_Join es ''/''"
    "list_all proper_elem es"
    using path_Join_rooted [of "[path_Join [url_Host u, url_Path u]]"] by (auto simp: list_all_iff)
  show ?thesis
  proof (cases "strings_ToLower (url_Scheme u) = ''unix''")
    case False
    with Inr show ?thesis by (simp add: ParseEndpoint_def Let_def)
  next
    case True
    define a where "a = ''/'' @ strings_Join es ''/''"
    define answer where "answer = fst (remove a (fs_state w))"
    have run: "run_state (ParseEndpoint parse remove endpoint) w =
       (if answer = None \<or> (\<exists>m. answer = Some (NotExist m)) then Inr (''unix'', a)
        else Inl (Errorf ''could not remove unix domain socket %q: %v'' [a, os_message (the answer)]),
        w\<lparr>fs_state := snd (remove a (fs_state w)), fs_removals := fs_removals w @ [(a, answer)]\<rparr>)"
      using Inr True es(1) [folded a_def]
      by (auto simp: ParseEndpoint_def run_os_Remove answer_def IsNotExist_def Let_def
          split: option.splits os_error.splits)
    show ?thesis
      unfolding run using Inr True es(2) by (auto simp: a_def)
  qed
qed

text \<open>
  An endpoint that parses to a protocol other than \<^verbatim>\<open>tcp\<close> and \<^verbatim>\<open>unix\<close> is refused, so is one that
  does not parse; nothing on disk changes then.
\<close>

theorem ParseEndpoint_refuses:
  assumes "\<forall>u. parse endpoint = Inr u \<longrightarrow> strings_ToLower (url_Scheme u) \<notin> {''tcp'', ''unix''}"
  shows "(\<exists>err. run_state (ParseEndpoint parse remove endpoint) w = (Inl err, w))"
  using assms by (cases "parse endpoint") (auto simp: ParseEndpoint_def Let_def)

theorem ParseEndpoint_refuses_witness:
  "\<exists>err. run_state (ParseEndpoint (\<lambda>e. Inr \<lparr>url_Scheme = ''HTTP'', url_Host = ''x'', url_Path = ''/''\<rparr>)
     (\<lambda>p s. (None, s)) ''HTTP://x/'') \<lparr>fs_state = (), fs_removals = []\<rparr> =
     (Inl err, \<lparr>fs_state = (), fs_removals = []\<rparr>)"
  by (rule ParseEndpoint_refuses) (simp add: strings_ToLower_def to_lower_def)

text \<open>
  C36: for plain hosts and paths the socket is the host's name, if there is one, followed by the
  path, under the root: \<^verbatim>\<open>unix:///csi/csi.sock\<close> and \<^verbatim>\<open>unix://csi/csi.sock\<close> mean the same socket. A file there
  is removed; that address is the result, whether there was one or not, unless the removal fails for
  another reason than that, and then its message is the error.
\<close>

theorem ParseEndpoint_address:
  assumes "parse endpoint = Inr \<lparr>url_Scheme = s, url_Host = host, url_Path = ''/'' @ strings_Join es ''/''\<rparr>"
    and "strings_ToLower s = ''unix''"
    and "es \<noteq> []" and "list_all proper_elem es" and "host = '''' \<or> proper_elem host"
  shows "let addr = ''/'' @ strings_Join (endpoint_elems host es) ''/'';
        answer = fst (remove addr (fs_state w))
     in run_state (ParseEndpoint parse remove endpoint) w =
          (case answer of
             Some (OtherOsError m) \<Rightarrow> Inl (Errorf ''could not remove unix domain socket %q: %v'' [addr, m])
           | _ \<Rightarrow> Inr (''unix'', addr),
           w\<lparr>fs_state := snd (remove addr (fs_state w)), fs_removals := fs_removals w @ [(addr, answer)]\<rparr>)"
proof -
  have "endpoint_elems host es \<noteq> []" "list_all proper_elem (endpoint_elems host es)"
    using assms by (auto simp: endpoint_elems_def)
  then have "path_Join [''/'', path_Join [host, ''/'' @ strings_Join es ''/'']] =
      ''/'' @ strings_Join (endpoint_elems host es) ''/''"
    using join_host_path [OF assms(3-5)] join_root [of "endpoint_elems host es" "if host = '''' then ''/'' else ''''"]
    by auto
  with assms(1,2) show ?thesis
    by (auto simp: ParseEndpoint_def run_os_Remove Let_def IsNotExist_def os_message_def simp del: append.simps
        split: option.split os_error.split)
qed

theorem ParseEndpoint_address_witness:
  "fst (run_state (ParseEndpoint
       (\<lambda>e. Inr \<lparr>url_Scheme = ''unix'', url_Host = ''csi'', url_Path = ''/csi.sock''\<rparr>)
       (\<lambda>p s. (Some (NotExist p), s)) ''unix://csi/csi.sock'') \<lparr>fs_state = (), fs_removals = []\<rparr>) =
     Inr (''unix'', ''/csi/csi.sock'')"
  using ParseEndpoint_address [of "\<lambda>e. Inr \<lparr>url_Scheme = ''unix'', url_Host = ''csi'', url_Path = ''/csi.sock''\<rparr>"
      "''unix://csi/csi.sock''" "''unix''" "''csi''" "[''csi.sock'']" "\<lambda>p s. (Some (NotExist p), s)"
      "\<lparr>fs_state = (), fs_removals = []\<rparr>"]
  by (simp add: strings_ToLower_def to_lower_def proper_elem_def endpoint_elems_def Let_def)

end
