(* ===== verification/ControllerMain.thy ===== *)
theory ControllerMain
  imports Tools Endpoint CsiServices Footprint
begin

text \<open>
  The program \<^verbatim>\<open>cmd/controller\<close>: what \<^verbatim>\<open>main\<close> does from the flags to the serving gRPC server, step by
  step, and the interceptor it puts before the handlers. The libraries that load a configuration, parse
  a URL, listen and serve, and call the handlers, are parameters; log output is left out.
\<close>

section \<open>Flags, environment and steps\<close>

record controller_flags =
  cf_showVersion :: bool
  cf_csiEndpoint :: string
  cf_nodeID :: string
  cf_metricsAddress :: string
  cf_metricsPath :: string
  cf_kubeconfig :: string

record ('k, 'fs, 'e) controller_env =
  ce_loader :: "'k config_loader"
  ce_NewForConfig :: "'k option \<Rightarrow> string + 'e client"
  ce_Getenv :: "string \<Rightarrow> string"
  ce_url_Parse :: "string \<Rightarrow> string + url"
  ce_remove :: "string \<Rightarrow> 'fs \<Rightarrow> os_error option \<times> 'fs"
  ce_Listen :: "string \<Rightarrow> string \<Rightarrow> string option"
  ce_Serve :: "string option"

text \<open>
  What a start does to the world outside it, in order; the identity and the controller service have
  no state of their own.
\<close>

datatype 'e driver_step =
    ListenOn string string
  | HandleDefaultMetrics string
  | ServeMetrics string
  | RegisterIdentityServer
  | RegisterControllerServer
  | RegisterNodeServer "'e NodeService"
  | ServeDriver

record ('fs, 'e) driver_world =
  dw_files :: "'fs file_system"
  dw_steps :: "'e driver_step list"

definition drive :: "'e driver_step \<Rightarrow> (('fs, 'e) driver_world, unit) state" where
  "drive s = State (\<lambda>w. ((), w\<lparr>dw_steps := dw_steps w @ [s]\<rparr>))"

definition on_files :: "('fs file_system, 'a) state \<Rightarrow> (('fs, 'e) driver_world, 'a) state" where
  "on_files m = State (\<lambda>w. case run_state m (dw_files w) of (r, f) \<Rightarrow> (r, w\<lparr>dw_files := f\<rparr>))"

lemma run_drive [simp]: "run_state (drive s) w = ((), w\<lparr>dw_steps := dw_steps w @ [s]\<rparr>)"
  by (simp add: drive_def)

lemma run_on_files [simp]:
  "run_state (on_files m) w = (fst (run_state m (dw_files w)), w\<lparr>dw_files := snd (run_state m (dw_files w))\<rparr>)"
  by (simp add: on_files_def split: prod.split)

text \<open>How a start ends; a served driver may end in an error of the server later.\<close>

datatype driver_outcome = DriverExit int | DriverFatal string | Served "string option"

section \<open>main\<close>

definition NewControllerService :: "'e client \<Rightarrow> go_error + 'e client" where
  "NewControllerService kclient = Inr kclient"

definition chosen_node :: "('k, 'fs, 'e) controller_env \<Rightarrow> controller_flags \<Rightarrow> string" where
  "chosen_node ev fl = (if cf_nodeID fl = '''' then ce_Getenv ev ''NODE_NAME'' else cf_nodeID fl)"

definition metrics_endpoint :: "controller_flags \<Rightarrow> (('fs, 'e) driver_world, unit) state" where
  "metrics_endpoint fl =
     (if cf_metricsAddress fl \<noteq> '''' then do {
        drive (HandleDefaultMetrics ''/metrics'');
        drive (ServeMetrics (cf_metricsAddress fl))
      }
      else State_Monad.return ())"

definition serve_driver ::
  "('k, 'fs, 'e) controller_env \<Rightarrow> controller_flags \<Rightarrow> 'e client \<Rightarrow> string \<times> string \<Rightarrow>
   (('fs, 'e) driver_world, driver_outcome) state" where
  "serve_driver ev fl clientset addr = do {
     drive (ListenOn (fst addr) (snd addr));
     case ce_Listen ev (fst addr) (snd addr) of
       Some err \<Rightarrow> State_Monad.return (DriverExit 1)
     | None \<Rightarrow> do {
         metrics_endpoint fl;
         case NewControllerService clientset of
           Inl err \<Rightarrow> State_Monad.return (DriverExit 1)
         | Inr controllerService \<Rightarrow> do {
             drive RegisterIdentityServer;
             drive RegisterControllerServer;
             drive (RegisterNodeServer (NewNodeService (chosen_node ev fl) clientset));
             drive ServeDriver;
             State_Monad.return (Served (ce_Serve ev))
           }
       }
   }"

definition controller_main ::
  "('k, 'fs, 'e) controller_env \<Rightarrow> controller_flags \<Rightarrow> (('fs, 'e) driver_world, driver_outcome) state" where
  "controller_main ev fl =
     (if cf_showVersion fl then State_Monad.return (DriverExit 0)
      else if cf_csiEndpoint fl = '''' then State_Monad.return (DriverExit 1)
      else case BuildConfig (ce_loader ev) (cf_kubeconfig fl) '''' of (kconfig, ns, err) \<Rightarrow>
        if err \<noteq> None then State_Monad.return (DriverExit 1)
        else case ce_NewForConfig ev kconfig of
          Inl err \<Rightarrow> State_Monad.return (DriverExit 1)
        | Inr clientset \<Rightarrow>
            if chosen_node ev fl = ''''
            then State_Monad.return (DriverFatal ''node-id or NODE_NAME environment must be provided'')
            else do {
              r \<leftarrow> on_files (ParseEndpoint (ce_url_Parse ev) (ce_remove ev) (cf_csiEndpoint fl));
              case r of
                Inl err \<Rightarrow> State_Monad.return (DriverExit 1)
              | Inr addr \<Rightarrow> serve_driver ev fl clientset addr
            })"

section \<open>The interceptor\<close>

text \<open>The interceptor logs an error of the handler and hands its answer on.\<close>

definition logErr :: "('req \<Rightarrow> ('w, go_error + 'resp) state) \<Rightarrow> 'req \<Rightarrow> ('w, go_error + 'resp) state" where
  "logErr handler req = do {
     r \<leftarrow> handler req;
     State_Monad.return r
   }"

text \<open>It changes neither the answer of a handler nor what the handler does.\<close>

lemma run_logErr [simp]: "run_state (logErr h r) w = run_state (h r) w"
  by (simp add: logErr_def split: prod.split)

section \<open>Properties\<close>

lemma ParseEndpoint_scheme:
  "fst (run_state (ParseEndpoint parse remove endpoint) w) = Inr addr \<Longrightarrow> fst addr \<in> {''tcp'', ''unix''}"
  by (auto simp: ParseEndpoint_def run_os_Remove Let_def split: sum.splits if_splits option.splits)

text \<open>The address a start gives its listener, and the steps from there.\<close>

abbreviation endpoint_of :: "('k, 'fs, 'e) controller_env \<Rightarrow> controller_flags \<Rightarrow> ('fs, 'e) driver_world \<Rightarrow> go_error + string \<times> string" where
  "endpoint_of ev fl w \<equiv>
     fst (run_state (ParseEndpoint (ce_url_Parse ev) (ce_remove ev) (cf_csiEndpoint fl)) (dw_files w))"

definition metrics_steps :: "controller_flags \<Rightarrow> 'e driver_step list" where
  "metrics_steps fl =
     (if cf_metricsAddress fl = '''' then [] else [HandleDefaultMetrics ''/metrics'', ServeMetrics (cf_metricsAddress fl)])"

lemma run_serve_driver:
  "run_state (serve_driver ev fl c addr) w =
     (if ce_Listen ev (fst addr) (snd addr) = None
      then (Served (ce_Serve ev), w\<lparr>dw_steps := dw_steps w @ [ListenOn (fst addr) (snd addr)] @ metrics_steps fl @
         [RegisterIdentityServer, RegisterControllerServer, RegisterNodeServer (NewNodeService (chosen_node ev fl) c), ServeDriver]\<rparr>)
      else (DriverExit 1, w\<lparr>dw_steps := dw_steps w @ [ListenOn (fst addr) (snd addr)]\<rparr>))"
  by (auto simp: serve_driver_def metrics_endpoint_def metrics_steps_def NewControllerService_def split: option.split)

lemma controller_main_Served:
  assumes "run_state (controller_main ev fl) w = (Served e, w')"
  shows "\<exists>c addr. chosen_node ev fl \<noteq> '''' \<and> endpoint_of ev fl w = Inr addr \<and>
     ce_Listen ev (fst addr) (snd addr) = None \<and>
     dw_steps w' = dw_steps w @ [ListenOn (fst addr) (snd addr)] @ metrics_steps fl @
       [RegisterIdentityServer, RegisterControllerServer, RegisterNodeServer (NewNodeService (chosen_node ev fl) c), ServeDriver]"
  using assms
  by (auto simp: controller_main_def run_serve_driver split: prod.splits sum.splits if_splits)

text \<open>
  C39: a driver that serves has a node name, from the flag or, without one, from \<^verbatim>\<open>NODE_NAME\<close>; it
  listens on the \<^verbatim>\<open>tcp\<close> or \<^verbatim>\<open>unix\<close> address \<^verbatim>\<open>ParseEndpoint\<close> gave, and it serves last, after the
  listener, the metrics asked for and all three services, the node's under that name, are in place.
\<close>

theorem controller_main_serves:
  assumes "run_state (controller_main ev fl) w = (Served e, w')"
  shows "\<exists>scheme addr node. scheme \<in> {''tcp'', ''unix''} \<and>
     endpoint_of ev fl w = Inr (scheme, addr) \<and> ce_Listen ev scheme addr = None \<and>
     ns_nodeID node \<noteq> '''' \<and>
     ns_nodeID node = (if cf_nodeID fl = '''' then ce_Getenv ev ''NODE_NAME'' else cf_nodeID fl) \<and>
     dw_steps w' = dw_steps w @ [ListenOn scheme addr] @
       (if cf_metricsAddress fl = '''' then [] else [HandleDefaultMetrics ''/metrics'', ServeMetrics (cf_metricsAddress fl)]) @
       [RegisterIdentityServer, RegisterControllerServer, RegisterNodeServer node, ServeDriver]"
proof -
  from controller_main_Served [OF assms] obtain c addr where
    run: "chosen_node ev fl \<noteq> ''''" "endpoint_of ev fl w = Inr addr" "ce_Listen ev (fst addr) (snd addr) = None"
      "dw_steps w' = dw_steps w @ [ListenOn (fst addr) (snd addr)] @ metrics_steps fl @
       [RegisterIdentityServer, RegisterControllerServer, RegisterNodeServer (NewNodeService (chosen_node ev fl) c), ServeDriver]"
    by blast
  with ParseEndpoint_scheme [OF run(2)] show ?thesis
    by (intro exI [where x = "fst addr"] exI [where x = "snd addr"]
        exI [where x = "NewNodeService (chosen_node ev fl) c"])
      (auto simp: NewNodeService_def chosen_node_def metrics_steps_def)
qed

definition sample_controller_env :: "(string, unit, unit) controller_env" where
  "sample_controller_env =
     \<lparr>ce_loader = \<lparr>ld_DefaultPath = '''', ld_Namespace = (\<lambda>p. Inr ''csi''), ld_ClientConfig = (\<lambda>p. (Some p, None))\<rparr>,
      ce_NewForConfig = (\<lambda>k. Inr sample_client),
      ce_Getenv = (\<lambda>v. if v = ''NODE_NAME'' then ''worker-1'' else ''''),
      ce_url_Parse = (\<lambda>e. Inr \<lparr>url_Scheme = ''unix'', url_Host = '''', url_Path = ''/csi/csi.sock''\<rparr>),
      ce_remove = (\<lambda>p s. (Some (NotExist p), s)),
      ce_Listen = (\<lambda>s a. None), ce_Serve = None\<rparr>"

definition sample_controller_flags :: controller_flags where
  "sample_controller_flags = \<lparr>cf_showVersion = False, cf_csiEndpoint = ''unix:///csi/csi.sock'',
     cf_nodeID = '''', cf_metricsAddress = '':8080'', cf_metricsPath = ''/prometheus'', cf_kubeconfig = ''''\<rparr>"

definition sample_driver_world :: "(unit, unit) driver_world" where
  "sample_driver_world = \<lparr>dw_files = \<lparr>fs_state = (), fs_removals = []\<rparr>, dw_steps = []\<rparr>"

lemma sample_controller_served:
  "\<exists>w'. run_state (controller_main sample_controller_env sample_controller_flags) sample_driver_world = (Served None, w')"
  by (simp add: controller_main_def sample_controller_env_def sample_controller_flags_def sample_driver_world_def
      BuildConfig_def chosen_node_def ParseEndpoint_def run_os_Remove IsNotExist_def strings_ToLower_def
      to_lower_def run_serve_driver Let_def)

theorem controller_main_serves_witness:
  "\<exists>w' node. run_state (controller_main sample_controller_env sample_controller_flags) sample_driver_world = (Served None, w') \<and>
     RegisterNodeServer node \<in> set (dw_steps w') \<and> ns_nodeID node = ''worker-1''"
proof -
  from sample_controller_served obtain w' where
    run: "run_state (controller_main sample_controller_env sample_controller_flags) sample_driver_world = (Served None, w')"
    by blast
  from controller_main_serves [OF run] obtain node where
    "RegisterNodeServer node \<in> set (dw_steps w')"
    "ns_nodeID node = (if cf_nodeID sample_controller_flags = '''' then ce_Getenv sample_controller_env ''NODE_NAME''
       else cf_nodeID sample_controller_flags)"
    by (elim exE conjE) (rule that, simp_all)
  with run show ?thesis by (auto simp: sample_controller_env_def sample_controller_flags_def)
qed

text \<open>
  The metrics of the driver are exposed under \<^verbatim>\<open>/metrics\<close> whatever the flag \<^verbatim>\<open>metrics-path\<close> says.
\<close>

theorem controller_metrics_path_ignored:
  "run_state (controller_main ev (fl\<lparr>cf_metricsPath := path\<rparr>)) w = run_state (controller_main ev fl) w"
proof -
  have "chosen_node ev (fl\<lparr>cf_metricsPath := path\<rparr>) = chosen_node ev fl"
    "serve_driver ev (fl\<lparr>cf_metricsPath := path\<rparr>) = serve_driver ev fl"
    by (simp_all add: fun_eq_iff serve_driver_def metrics_endpoint_def chosen_node_def cong: option.case_cong sum.case_cong)
  then show ?thesis
    by (simp add: controller_main_def cong: prod.case_cong sum.case_cong if_cong)
qed

text \<open>
  A start that ends before the endpoint is parsed (version, no endpoint, no configuration, no
  client, no node name) leaves the file system alone and takes no step: a driver that cannot run
  does not remove the socket of one that does.
\<close>

theorem controller_main_keeps_socket:
  assumes "cf_showVersion fl \<or> cf_csiEndpoint fl = '''' \<or>
     snd (snd (BuildConfig (ce_loader ev) (cf_kubeconfig fl) '''')) \<noteq> None \<or>
     isl (ce_NewForConfig ev (fst (BuildConfig (ce_loader ev) (cf_kubeconfig fl) ''''))) \<or>
     (cf_nodeID fl = '''' \<and> ce_Getenv ev ''NODE_NAME'' = '''')"
  shows "snd (run_state (controller_main ev fl) w) = w \<and>
     \<not> (\<exists>e. fst (run_state (controller_main ev fl) w) = Served e)"
  using assms
  by (auto simp: controller_main_def chosen_node_def split: prod.splits sum.splits)

theorem controller_main_keeps_socket_witness:
  "snd (run_state (controller_main (sample_controller_env\<lparr>ce_Getenv := (\<lambda>v. '''')\<rparr>) sample_controller_flags) sample_driver_world) =
     sample_driver_world"
  using controller_main_keeps_socket [of sample_controller_flags "sample_controller_env\<lparr>ce_Getenv := (\<lambda>v. '''')\<rparr>" sample_driver_world]
  by (simp add: sample_controller_flags_def)

end
