(* ===== verification/Spec2Isabelle.thy ===== *)
theory Spec2Isabelle
  imports Workers Bound Liveness Adoption TopologyOrder Selects ProvisionerMain ControllerMain
begin

text \<open>
  A verification development for \<^verbatim>\<open>hybrid-csi-plugin\<close>, a Kubernetes storage plugin that serves
  claims on a \<^emph>\<open>hybrid\<close> storage class from other, real storage classes: it picks the class that fits
  the node chosen by the scheduler, lets that class make a volume for a backing claim of its own,
  takes the volume away from the backing claim and hands it to the user's claim.

  \<^bold>\<open>The program.\<close> \<^verbatim>\<open>cmd/csi-provisioner\<close> runs the controller of the external-provisioner library, which
  calls \<^verbatim>\<open>Provision\<close> and \<^verbatim>\<open>Delete\<close> of \<^verbatim>\<open>pkg/provisioner\<close>. \<^verbatim>\<open>provisioner.go\<close> talks to the API server
  through client-go, reads informer caches through listers and uses \<^verbatim>\<open>topology.go\<close> to match nodes with
  allowed topologies. \<^verbatim>\<open>cmd/controller\<close> serves the three CSI services of \<^verbatim>\<open>pkg/csi\<close> on a socket.
  \<^verbatim>\<open>pkg/tools\<close> holds helpers for claims, nodes and configurations.

  \<^bold>\<open>Theories, in the order they build on each other.\<close>
  \<^item> \<open>Prelude\<close>: errors as values (\<open>api_error\<close>, \<open>go_error\<close>), panics (\<open>run\<close>), the select of Go
    (\<open>select_run\<close>), and a Hoare calculus (\<open>triple\<close>) for the state monad; rules in \<open>triple_rules\<close>.
  \<^item> \<open>GoLib\<close>: the functions of Go's \<^verbatim>\<open>strings\<close>, \<^verbatim>\<open>slices\<close> and \<^verbatim>\<open>path\<close> the code computes with; the
    locale \<open>compare_func\<close> is the contract of \<^verbatim>\<open>slices.SortFunc\<close>.
  \<^item> \<open>Topology\<close>: \<^verbatim>\<open>pkg/provisioner/topology.go\<close>, with the locale interpreted for segments and terms.
  \<^item> \<open>Kube\<close>: the API objects, the log of calls, and the parameters of the model: the record \<open>client\<close>.
  \<^item> \<open>Selection\<close>: \<^verbatim>\<open>HybridProvisioner\<close>, \<^verbatim>\<open>NewProvisioner\<close>, \<^verbatim>\<open>getStorageClassFromNode\<close>; the
    specification is \<open>first_eligible\<close>.
  \<^item> \<open>WatchLoop\<close>: \<^verbatim>\<open>waitBindPVC\<close> and \<^verbatim>\<open>PVWaitDelete\<close>, two instances of the locale \<open>event_loop\<close>.
  \<^item> \<open>Provisioning\<close>: the patches, \<^verbatim>\<open>releasePV\<close>, \<^verbatim>\<open>bondPVC\<close>, \<^verbatim>\<open>createPVbyAnnotation\<close>, \<^verbatim>\<open>createPVbyPOD\<close>,
    \<^verbatim>\<open>Provision\<close> and \<^verbatim>\<open>Delete\<close>, each call an operation of the state monad.
  \<^item> \<open>Protocol\<close>: the specification of a provisioning, an \<^theory_text>\<open>inductive\<close> step relation between phases
    labelled with calls, and its invariants by rule induction.
  \<^item> \<open>Refinement\<close>: a triple per operation shows that the code's log is a path of the protocol and the
    result agrees with the phase reached; the locale \<open>volume_creator\<close> is the contract of the two
    methods and is interpreted for both.
  \<^item> \<open>Safety\<close>, \<open>Chain\<close>, \<open>ProvisionProps\<close>: what follows for \<^verbatim>\<open>Provision\<close> in every environment, among it the
    whole log of a run that succeeds.  \<open>Served\<close>: the
    environments a run passes through, call by call; every operation keeps to them.  \<open>Exactness\<close>: the
    converse of the refinement, by an API server that plays a path of the protocol back.
    \<open>Adoption\<close>: the backing claim of an earlier attempt is taken from the cache unseen.
  \<^item> \<open>Json\<close>, \<open>Patches\<close>, \<open>VolumeState\<close>: a reader of JSON and RFC 7386 merging, the effect of the patch
    texts on documents, and the state in which a run leaves the volumes.
  \<^item> \<open>JsonWrite\<close>, \<open>MergePaths\<close>, \<open>ClaimPatch\<close>, \<open>ClaimState\<close>: a writer of JSON with its round trip, merge
    patches by the paths they change, the effect of a marshalled claim, and the state in which a run
    leaves the user's claim.  \<open>Cluster\<close>: the documents the API server holds after a run.
    \<open>Bound\<close>: the same while others write to them as well.
  \<^item> \<open>Selects\<close>: the two waiting loops over infinite sequences of choices, as partial functions; the
    locale \<open>select_loop\<close> extends \<open>event_loop\<close> and shows when they return.
  \<^item> \<open>Footprint\<close>, \<open>Interleaving\<close>: what a run writes, and logs merged in any order; the locale
    \<open>object_view\<close> is an object seen through the calls that write it, interpreted for volumes and for
    the user's claim.
  \<^item> \<open>Attempts\<close>, \<open>AttemptsClaim\<close>: the controller calling \<^verbatim>\<open>Provision\<close> again while it ends in an error, final
    or asking for another node, and what that makes of the volumes and of the claim. An \<open>attempt\<close> has
    its own caches and options, so nodes and classes may change from one to the next; \<open>at_request\<close>
    says what they share: the client, the method, and the names of the claim and of the volume.
    \<open>Survival\<close>: no volume whose backing claim is asked to go (\<open>at_stake\<close>), and none a patch went through
    to, is lost to a server that deletes what is not retained.  \<open>Liveness\<close>: the attempts end in success once the environment lets them.
    \<open>Workers\<close>: any number of requests, each with any number of attempts, in parallel.
  \<^item> \<open>TopologyOrder\<close>: segments as an instance of \<^verbatim>\<open>linorder\<close>; sorting and comparing are the library's.
  \<^item> \<open>Tools\<close>: \<^verbatim>\<open>pkg/tools\<close> but \<^verbatim>\<open>PVWaitDelete\<close>.  \<open>Endpoint\<close>: \<^verbatim>\<open>pkg/csi/helper.go\<close>.
    \<open>CsiServices\<close>: the services of \<^verbatim>\<open>pkg/csi\<close>.  \<open>ProvisionerMain\<close>, \<open>ControllerMain\<close>: \<^verbatim>\<open>main\<close> of the two
    programs as logs of steps, with the goroutine that serves HTTP beside the first and the interceptor
    of the second.

  \<^bold>\<open>State and environment.\<close> The state of a run is a \<open>world\<close>: an environment of unknown type and the log
  of the calls made with their answers. A call applies the matching function of \<open>client\<close>, which may
  answer anything and change the environment at will, so the theorems hold whatever the other
  actors of the cluster do between two calls. Reads of the claim cache are calls too, since the cache
  changes during a run (the field \<^verbatim>\<open>claimLister\<close> of \<^verbatim>\<open>HybridProvisioner\<close> is therefore part of the
  client); the other listers are read once per decision and are functions of a name, fixed within a run
  and free to change between two attempts. A pointer that may be nil is an option; dereferencing nil and indexing out of range are panics.

  \<^bold>\<open>Hypotheses on code outside the repository.\<close> \<open>backoff_contract\<close>: \<^verbatim>\<open>wait.ExponentialBackoff\<close> with
  factor 1 tries up to \<^verbatim>\<open>Steps\<close> times and stops on success or error. \<open>node_contract\<close>: reads and
  patches of nodes act on the flag \<^verbatim>\<open>unschedulable\<close> as documented. \<open>cache_ok\<close>: a lister without error
  gives an object, with values for each topology expression, which API validation enforces.
  \<open>plain_claim\<close>: identifiers hold no quotes. \<open>honest\<close>: a watch by name delivers objects of that name,
  and a patch or creation answers with the object it was about. \<open>marshal_contract\<close>: what
  \<^verbatim>\<open>json.Marshal\<close> writes for a claim with annotations and a volume name only; a null creation time may be among
  it, so the claim's patches may drop that field (\<open>creation_kept\<close>). \<open>server_contract\<close>: a
  patch answered without an error was merged into the document, and deletions touch no other.
  \<open>retain_respected\<close>, much weaker: of the volumes, only those with policy \<^verbatim>\<open>Retain\<close> stay, and patches
  are merged. \<open>binding_respected\<close>: nobody else unbinds a claim marked as bound. \<open>cooperates\<close>: from some environment on every call succeeds and the watch sees the
  claim being bound. \<open>apart\<close>: requests that run in parallel are about different claims and their backing
  claims are bound to different volumes. Each has an instance in a witness. In \<open>WatchLoop\<close> a watch delivers finitely many events before its timer fires (\<open>select_run\<close>);
  \<open>Selects\<close> drops this: a loop returns exactly when a deciding choice comes, and then as the finite
  one. Back-off loops have five attempts, and \<open>Provision_call_bound\<close> gives 13 and 19 as bounds on the
  calls of a run. The reader of JSON has fuel of one more than the tokens, which \<open>parses_plain\<close> shows
  to be enough for everything written.

  \<^bold>\<open>What the lemmas show.\<close> Topology: flattening, subset test and segment extraction decide the
  meaning of allowed topologies. Selection: the first class that fits is taken. Provisioning:
  exactly the paths of the protocol are taken, the order of destructive calls, the state of the volume and of the user's claim in success and failure, the
  objects touched, non-interference of parallel requests, invariants over any number of attempts, no loss
  of a volume, totality and bounds, success once the environment cooperates, and where the code falls short (a claim bound before
  the watch, a retried pod method, a backing claim of another class taken from the cache, an empty value list, a missing node). Tools, services and start-up:
  results in terms of the answers of the API server, and the order of the steps of a start.

  \<^bold>\<open>Not modelled.\<close> Log output and the variables kept for it (\<^verbatim>\<open>lastSaveError\<close>); durations (the
  timer fires at some point); the goroutine of the driver's metrics server, which only logs its
  failure; the calls gRPC makes of the driver's handlers; flag parsing; the libraries behind the parameters; charts, documentation and build files.

  \<^bold>\<open>Plan.\<close> Modelled first: selection and provisioning, the core; then the volume's state, tools,
  services and start-up; then the user's claim, parallel runs and the loops without a bound; then the
  life of a request (its claim, its volumes and its success over all attempts) and parallel requests;
  then that the protocol has no paths the code does not take, and provisioning beside other writers;
  last, attempts whose caches, nodes and classes differ, and what a claim left by an earlier one does.
\<close>

end
